theory Spec2Isabelle
  imports Main "HOL-Library.Sublist" "HOL-Library.Multiset" "HOL-Library.Char_ord"
    "HOL-Library.List_Lexorder" "HOL-Library.Product_Lexorder"
begin

section \<open>Python strings\<close>

text \<open>
  The code of \<^verbatim>\<open>custom_model.py\<close> works on Python \<^verbatim>\<open>str\<close> values. They are modelled as
  \<^typ>\<open>string\<close>, one \<^typ>\<open>char\<close> per code point, which covers the code points below 256;
  the character classes below are those of Python on that range.
\<close>

definition isspace :: "char \<Rightarrow> bool" where
  \<comment> \<open>\<^verbatim>\<open>str.isspace\<close> on one character; also the class \<^verbatim>\<open>\s\<close> of \<^verbatim>\<open>re\<close>\<close>
  "isspace c = (let n = (of_char c :: nat)
                in (9 \<le> n \<and> n \<le> 13) \<or> (28 \<le> n \<and> n \<le> 32) \<or> n = 133 \<or> n = 160)"

definition isalnum :: "char \<Rightarrow> bool" where
  \<comment> \<open>\<^verbatim>\<open>str.isalnum\<close> on one character\<close>
  "isalnum c = (let n = (of_char c :: nat)
                in (48 \<le> n \<and> n \<le> 57) \<or> (65 \<le> n \<and> n \<le> 90) \<or> (97 \<le> n \<and> n \<le> 122)
                   \<or> n = 170 \<or> n = 178 \<or> n = 179 \<or> n = 181 \<or> n = 185 \<or> n = 186
                   \<or> (188 \<le> n \<and> n \<le> 190) \<or> (192 \<le> n \<and> n \<le> 214)
                   \<or> (216 \<le> n \<and> n \<le> 246) \<or> (248 \<le> n \<and> n \<le> 255))"

definition isword :: "char \<Rightarrow> bool" where
  \<comment> \<open>the class \<^verbatim>\<open>\w\<close> of \<^verbatim>\<open>re\<close>\<close>
  "isword c = (isalnum c \<or> c = CHR ''_'')"

definition isdecimal :: "char \<Rightarrow> bool" where
  \<comment> \<open>the class \<^verbatim>\<open>\d\<close> of \<^verbatim>\<open>re\<close>\<close>
  "isdecimal c = (let n = (of_char c :: nat) in 48 \<le> n \<and> n \<le> 57)"

definition notnl :: "char \<Rightarrow> bool" where
  \<comment> \<open>the class \<^verbatim>\<open>.\<close> of \<^verbatim>\<open>re\<close> without \<^verbatim>\<open>DOTALL\<close>\<close>
  "notnl c = (c \<noteq> CHR 0x0A)"

definition anychar :: "char \<Rightarrow> bool" where
  \<comment> \<open>the class \<^verbatim>\<open>.\<close> under \<^verbatim>\<open>DOTALL\<close>, and \<^verbatim>\<open>[\s\S]\<close>\<close>
  "anychar c = True"

definition lstrip :: "string \<Rightarrow> string" where
  "lstrip s = dropWhile isspace s"

definition rstrip :: "string \<Rightarrow> string" where
  "rstrip s = rev (dropWhile isspace (rev s))"

definition strip :: "string \<Rightarrow> string" where
  "strip s = lstrip (rstrip s)"

definition startswith :: "string \<Rightarrow> string \<Rightarrow> bool" where
  "startswith s p = prefix p s"

definition endswith :: "string \<Rightarrow> string \<Rightarrow> bool" where
  "endswith s p = suffix p s"

fun find_sub :: "string \<Rightarrow> string \<Rightarrow> (string \<times> string) option" where
  \<comment> \<open>the text before and after the first occurrence of \<open>sep\<close>\<close>
  "find_sub sep [] = (if sep = [] then Some ([], []) else None)"
| "find_sub sep (c # cs) =
     (if prefix sep (c # cs) then Some ([], drop (length sep) (c # cs))
      else (case find_sub sep cs of None \<Rightarrow> None | Some (a, b) \<Rightarrow> Some (c # a, b)))"

definition contains :: "string \<Rightarrow> string \<Rightarrow> bool" where
  \<comment> \<open>\<^verbatim>\<open>sub in s\<close>\<close>
  "contains s sub = (find_sub sub s \<noteq> None)"

lemma find_sub_shorter:
  "find_sub sep s = Some (a, b) \<Longrightarrow> sep \<noteq> [] \<Longrightarrow> length b < length s"
proof (induction s arbitrary: a)
  case Nil
  then show ?case by simp
next
  case (Cons c cs)
  show ?case
  proof (cases "prefix sep (c # cs)")
    case True
    with Cons.prems show ?thesis by auto
  next
    case False
    with Cons.prems obtain a' where "find_sub sep cs = Some (a', b)"
      by (auto split: option.splits)
    from Cons.IH [OF this Cons.prems(2)] show ?thesis by simp
  qed
qed

function split :: "string \<Rightarrow> string \<Rightarrow> string list" where
  \<comment> \<open>\<^verbatim>\<open>s.split(sep)\<close>; the program only splits at non-empty literals\<close>
  "split s sep =
     (if sep = [] then [s]
      else (case find_sub sep s of None \<Rightarrow> [s] | Some (a, b) \<Rightarrow> a # split b sep))"
  by pat_completeness auto
termination
  by (relation "measure (\<lambda>(s, sep). length s)") (auto dest: find_sub_shorter)

fun join :: "string \<Rightarrow> string list \<Rightarrow> string" where
  \<comment> \<open>\<^verbatim>\<open>sep.join(xs)\<close>\<close>
  "join sep [] = []"
| "join sep [x] = x"
| "join sep (x # y # ys) = x @ sep @ join sep (y # ys)"

definition nl :: string where
  "nl = [CHR 0x0A]"

definition indent_of :: "string \<Rightarrow> nat" where
  \<comment> \<open>\<^verbatim>\<open>len(line) - len(line.lstrip())\<close>\<close>
  "indent_of line = length line - length (lstrip line)"

section \<open>Regular expressions\<close>

text \<open>
  The patterns of the program are values of \<open>rx\<close>, run by a backtracking matcher with the
  priorities of Python's \<^verbatim>\<open>re\<close>: the left alternative first, a greedy star the longest
  first, a lazy star the shortest first.  The matcher keeps the stack of what is still to
  be matched, the rest of the text, the position in the text and the groups closed so far.
\<close>

datatype rx =
    Chr char
  | Sym "char \<Rightarrow> bool"
  | Eps
  | Bos
  | Eos
  | Seq rx rx
  | Alt rx rx
  | Star rx
  | Lazy rx
  | Grp nat rx

datatype frame = Rx rx | Again rx nat | Mark nat nat

type_synonym caps = "(nat \<times> nat \<times> nat) list"

fun wr :: "rx \<Rightarrow> nat" where
  "wr (Seq a b) = Suc (wr a + wr b)"
| "wr (Alt a b) = Suc (wr a + wr b)"
| "wr (Star a) = Suc (wr a)"
| "wr (Lazy a) = Suc (wr a)"
| "wr (Grp i a) = Suc (Suc (wr a))"
| "wr _ = 1"

fun wf :: "nat \<Rightarrow> frame \<Rightarrow> nat" where
  "wf p (Rx r) = wr r"
| "wf p (Again r q) = (if q < p then Suc (wr r) else 0)"
| "wf p (Mark i q) = 1"

function (sequential) run ::
  "frame list \<Rightarrow> string \<Rightarrow> nat \<Rightarrow> caps \<Rightarrow> (string \<times> nat \<times> caps) option" where
  "run [] s p cs = Some (s, p, cs)"
| "run (Rx (Chr c) # k) s p cs =
     (case s of [] \<Rightarrow> None | x # t \<Rightarrow> if x = c then run k t (Suc p) cs else None)"
| "run (Rx (Sym f) # k) s p cs =
     (case s of [] \<Rightarrow> None | x # t \<Rightarrow> if f x then run k t (Suc p) cs else None)"
| "run (Rx Eps # k) s p cs = run k s p cs"
| "run (Rx Bos # k) s p cs = (if p = 0 then run k s p cs else None)"
| "run (Rx Eos # k) s p cs = (if s = [] \<or> s = [CHR 0x0A] then run k s p cs else None)"
| "run (Rx (Seq a b) # k) s p cs = run (Rx a # Rx b # k) s p cs"
| "run (Rx (Alt a b) # k) s p cs =
     (case run (Rx a # k) s p cs of Some m \<Rightarrow> Some m | None \<Rightarrow> run (Rx b # k) s p cs)"
| "run (Rx (Star a) # k) s p cs =
     (case run (Rx a # Again (Star a) p # k) s p cs of
        Some m \<Rightarrow> Some m
      | None \<Rightarrow> run k s p cs)"
| "run (Rx (Lazy a) # k) s p cs =
     (case run k s p cs of
        Some m \<Rightarrow> Some m
      | None \<Rightarrow> run (Rx a # Again (Lazy a) p # k) s p cs)"
| "run (Rx (Grp i a) # k) s p cs = run (Rx a # Mark i p # k) s p cs"
| "run (Again r q # k) s p cs = (if q < p then run (Rx r # k) s p cs else None)"
| "run (Mark i q # k) s p cs = run k s p ((i, q, p) # cs)"
  by pat_completeness auto
termination
  by (relation "measures [\<lambda>(k, s, p, cs). length s, \<lambda>(k, s, p, cs). sum_list (map (wf p) k)]")
     auto

text \<open>
  \<open>Bos\<close> is \<^verbatim>\<open>^\<close> and \<open>Eos\<close> is \<^verbatim>\<open>$\<close>, both without \<^verbatim>\<open>MULTILINE\<close>.  \<open>Again\<close> lets a star go
  round once more only after it has consumed a character; every starred pattern of the
  program consumes one, so the check never fails there.
\<close>

fun lit :: "string \<Rightarrow> rx" where
  "lit [] = Eps"
| "lit (c # cs) = Seq (Chr c) (lit cs)"

fun seqs :: "rx list \<Rightarrow> rx" where
  "seqs [] = Eps"
| "seqs (r # rs) = Seq r (seqs rs)"

definition plus :: "rx \<Rightarrow> rx" where
  "plus r = Seq r (Star r)"

definition opt :: "rx \<Rightarrow> rx" where
  "opt r = Alt r Eps"

type_synonym rmatch = "nat \<times> nat \<times> caps"

definition re_match :: "rx \<Rightarrow> string \<Rightarrow> rmatch option" where
  \<comment> \<open>\<^verbatim>\<open>re.match\<close>: the start, the end and the groups of a match at position 0\<close>
  "re_match r s = (case run [Rx r] s 0 [] of None \<Rightarrow> None | Some (t, e, cs) \<Rightarrow> Some (0, e, cs))"

fun search_from :: "rx \<Rightarrow> string \<Rightarrow> nat \<Rightarrow> rmatch option" where
  "search_from r [] p = (case run [Rx r] [] p [] of None \<Rightarrow> None | Some (t, e, cs) \<Rightarrow> Some (p, e, cs))"
| "search_from r (c # s) p =
     (case run [Rx r] (c # s) p [] of
        Some (t, e, cs) \<Rightarrow> Some (p, e, cs)
      | None \<Rightarrow> search_from r s (Suc p))"

definition re_search :: "rx \<Rightarrow> string \<Rightarrow> rmatch option" where
  \<comment> \<open>\<^verbatim>\<open>re.search\<close>: the leftmost match\<close>
  "re_search r s = search_from r s 0"

definition substr :: "string \<Rightarrow> nat \<Rightarrow> nat \<Rightarrow> string" where
  \<comment> \<open>\<^verbatim>\<open>s[a:b]\<close>\<close>
  "substr s a b = take (b - a) (drop a s)"

definition group :: "string \<Rightarrow> rmatch \<Rightarrow> nat \<Rightarrow> string" where
  \<comment> \<open>\<^verbatim>\<open>m.group(i)\<close> of a match in \<open>s\<close>; every group of the program's patterns takes part in
      every match\<close>
  "group s m i =
     (if i = 0 then substr s (fst m) (fst (snd m))
      else (case map_of (snd (snd m)) i of None \<Rightarrow> [] | Some (a, b) \<Rightarrow> substr s a b))"

function finditer_from :: "rx \<Rightarrow> string \<Rightarrow> nat \<Rightarrow> rmatch list" where
  \<comment> \<open>the non-overlapping matches from left to right; after an empty match the scan moves
      on by one character\<close>
  "finditer_from r s p =
     (case run [Rx r] s p [] of
        Some (t, e, cs) \<Rightarrow>
          (if length t < length s then (p, e, cs) # finditer_from r t e
           else (p, e, cs) # (case s of [] \<Rightarrow> [] | c # u \<Rightarrow> finditer_from r u (Suc p)))
      | None \<Rightarrow> (case s of [] \<Rightarrow> [] | c # u \<Rightarrow> finditer_from r u (Suc p)))"
  by pat_completeness auto
termination
  by (relation "measure (\<lambda>(r, s, p). length s)") auto

definition finditer :: "rx \<Rightarrow> string \<Rightarrow> rmatch list" where
  "finditer r s = finditer_from r s 0"

section \<open>The first pass of \<^verbatim>\<open>fix_common_code_issues\<close>\<close>

text \<open>
  The loop over \<open>i\<close> that removes repeated definitions.  \<^verbatim>\<open>class_defs\<close> is a list of
  pairs in the order of insertion, which is the order in which the code iterates over it;
  \<^verbatim>\<open>method_defs\<close> is a map.  \<open>pass1_step\<close> is the body of the loop and \<open>pass1\<close> the
  loop, which returns the lines appended to \<^verbatim>\<open>fixed_lines\<close>.
\<close>

definition rx_class_header :: rx where
  \<comment> \<open>\<^verbatim>\<open>^class\s+(\w+)\<close>\<close>
  "rx_class_header = seqs [Bos, lit ''class'', plus (Sym isspace), Grp 1 (plus (Sym isword))]"

definition rx_method_header :: rx where
  \<comment> \<open>\<^verbatim>\<open>^\s*def\s+(\w+)\<close>\<close>
  "rx_method_header =
     seqs [Bos, Star (Sym isspace), lit ''def'', plus (Sym isspace), Grp 1 (plus (Sym isword))]"

definition match_group1 :: "rx \<Rightarrow> string \<Rightarrow> string option" where
  \<comment> \<open>\<^verbatim>\<open>re.match(r, s)\<close> and, when it matches, \<^verbatim>\<open>.group(1)\<close>\<close>
  "match_group1 r s = (case re_match r s of None \<Rightarrow> None | Some m \<Rightarrow> Some (group s m 1))"

function skip_class_span :: "string list \<Rightarrow> nat \<Rightarrow> nat" where
  \<comment> \<open>the end of the span of a repeated class: the first line from \<open>j\<close> on that is
      neither blank nor starts with a space or a tab\<close>
  "skip_class_span lines j =
     (if j < length lines
         \<and> (strip (lines ! j) = [] \<or> startswith (lines ! j) '' ''
            \<or> startswith (lines ! j) [CHR 0x09])
      then skip_class_span lines (Suc j) else j)"
  by pat_completeness auto
termination
  by (relation "measure (\<lambda>(lines, j). length lines - j)") auto

function span_end :: "string list \<Rightarrow> nat \<Rightarrow> nat \<Rightarrow> nat" where
  \<comment> \<open>the end of the span of a method: the first line from \<open>j\<close> on that is neither blank
      nor indented further than \<open>indent_level\<close>\<close>
  "span_end lines indent_level j =
     (if j < length lines \<and> (strip (lines ! j) = [] \<or> indent_of (lines ! j) > indent_level)
      then span_end lines indent_level (Suc j) else j)"
  by pat_completeness auto
termination
  by (relation "measure (\<lambda>(lines, indent_level, j). length lines - j)") auto

declare skip_class_span.simps [simp del]
declare span_end.simps [simp del]

lemma skip_class_span_ge: "j \<le> skip_class_span lines j"
proof (induction lines j rule: skip_class_span.induct)
  case (1 lines j)
  show ?case
    by (subst skip_class_span.simps) (use 1 in \<open>auto simp del: skip_class_span.simps\<close>)
qed

lemma span_end_ge: "j \<le> span_end lines n j"
proof (induction lines n j rule: span_end.induct)
  case (1 lines n j)
  show ?case
    by (subst span_end.simps) (use 1 in \<open>auto simp del: span_end.simps\<close>)
qed

definition current_class :: "(string \<times> nat) list \<Rightarrow> nat \<Rightarrow> string option" where
  "current_class class_defs i =
     fold (\<lambda>(cls, line_num) cur. if line_num < i then Some cls else cur) class_defs None"

definition method_key_of :: "string option \<Rightarrow> string \<Rightarrow> string" where
  "method_key_of cur method_name =
     (case cur of
        None \<Rightarrow> method_name
      | Some cls \<Rightarrow> if cls \<noteq> [] then cls @ ''.'' @ method_name else method_name)"

type_synonym pass1_state = "(string \<times> nat) list \<times> (string \<rightharpoonup> nat)"

definition method_check ::
  "string list \<Rightarrow> nat \<Rightarrow> string \<Rightarrow> pass1_state \<Rightarrow> bool \<times> nat \<times> pass1_state" where
  \<comment> \<open>the second half of the loop body: the check for a repeated method\<close>
  "method_check lines i line st =
     (case st of (class_defs, method_defs) \<Rightarrow>
        (case match_group1 rx_method_header line of
           None \<Rightarrow> (True, Suc i, st)
         | Some method_name \<Rightarrow>
             (let method_key = method_key_of (current_class class_defs i) method_name
              in if method_defs method_key \<noteq> None \<and> method_name \<noteq> ''__init__''
                 then (False, span_end lines (indent_of (lines ! i)) (Suc i), st)
                 else (True, Suc i, class_defs, method_defs(method_key \<mapsto> i)))))"

definition pass1_step ::
  "string list \<Rightarrow> nat \<Rightarrow> pass1_state \<Rightarrow> bool \<times> nat \<times> pass1_state" where
  \<comment> \<open>one round of the loop at line \<open>i\<close>: whether \<^verbatim>\<open>lines[i]\<close> is appended to
      \<^verbatim>\<open>fixed_lines\<close>, the next \<open>i\<close>, and the two dictionaries\<close>
  "pass1_step lines i st =
     (case st of (class_defs, method_defs) \<Rightarrow>
        (let line = strip (lines ! i)
         in case match_group1 rx_class_header line of
              None \<Rightarrow> method_check lines i line st
            | Some class_name \<Rightarrow>
                if class_name \<in> fst ` set class_defs
                then (False, skip_class_span lines (Suc i), st)
                else method_check lines i line (class_defs @ [(class_name, i)], method_defs)))"

lemma method_check_next: "method_check lines i line st = (keep, i', st') \<Longrightarrow> i < i'"
  using span_end_ge [of "Suc i" lines "indent_of (lines ! i)"]
  by (auto simp: method_check_def Let_def split: prod.splits option.splits if_splits)

lemma pass1_step_next: "pass1_step lines i st = (keep, i', st') \<Longrightarrow> i < i'"
  using skip_class_span_ge [of "Suc i" lines]
  by (auto simp: pass1_step_def Let_def split: prod.splits option.splits if_splits
           dest: method_check_next)

function pass1 :: "string list \<Rightarrow> nat \<Rightarrow> pass1_state \<Rightarrow> string list" where
  \<comment> \<open>the lines appended to \<^verbatim>\<open>fixed_lines\<close> by the rounds from line \<open>i\<close> on\<close>
  "pass1 lines i st =
     (if i < length lines then
        (case pass1_step lines i st of
           (keep, i', st') \<Rightarrow> (if keep then [lines ! i] else []) @ pass1 lines i' st')
      else [])"
  by pat_completeness auto
termination
proof (relation "measure (\<lambda>(lines, i, st). length lines - i)", goal_cases)
  case 1
  show ?case by simp
next
  case (2 lines i st keep rest i' st')
  from 2(2,3) have "pass1_step lines i st = (keep, i', st')" by simp
  from pass1_step_next [OF this] 2(1) show ?case by simp
qed

declare pass1.simps [simp del]

definition fixed_lines :: "string \<Rightarrow> string list" where
  "fixed_lines code = pass1 (split code nl) 0 ([], Map.empty)"

lemma drop_subseq: "i \<le> j \<Longrightarrow> subseq xs (drop j ys) \<Longrightarrow> subseq xs (drop i ys)"
proof -
  assume j: "i \<le> j" and s: "subseq xs (drop j ys)"
  have "drop j ys = drop (j - i) (drop i ys)" using j by simp
  then have "suffix (drop j ys) (drop i ys)" by (metis suffix_drop)
  then have "subseq (drop j ys) (drop i ys)" by (rule suffix_imp_subseq)
  with s show "subseq xs (drop i ys)" by (rule subseq_order.trans)
qed

lemma pass1_subseq: "subseq (pass1 lines i st) (drop i lines)"
proof (induction lines i st rule: pass1.induct)
  case (1 lines i st)
  show ?case
  proof (cases "i < length lines")
    case False
    then show ?thesis by (subst pass1.simps) simp
  next
    case True
    obtain keep i' st' where step: "pass1_step lines i st = (keep, i', st')"
      by (cases "pass1_step lines i st") auto
    have d: "drop i lines = lines ! i # drop (Suc i) lines"
      using True by (simp add: Cons_nth_drop_Suc)
    have "Suc i \<le> i'" using pass1_step_next [OF step] by simp
    moreover have "subseq (pass1 lines i' st') (drop i' lines)"
      using 1 [OF True step [symmetric]] by simp
    ultimately have r: "subseq (pass1 lines i' st') (drop (Suc i) lines)"
      by (rule drop_subseq)
    have e: "pass1 lines i st = (if keep then [lines ! i] else []) @ pass1 lines i' st'"
      using True step by (subst pass1.simps) simp
    show ?thesis using r by (cases keep) (auto simp: e d)
  qed
qed

lemma class_header_first_char:
  "match_group1 rx_class_header l = Some n \<Longrightarrow> \<exists>t. l = CHR ''c'' # t"
  by (cases l)
     (auto simp: match_group1_def re_match_def rx_class_header_def split: option.splits if_splits)

lemma method_header_not_c: "match_group1 rx_method_header (CHR ''c'' # t) = None"
  by (simp add: match_group1_def re_match_def rx_method_header_def isspace_def)

lemma class_header_not_method:
  "match_group1 rx_class_header l = Some n \<Longrightarrow> match_group1 rx_method_header l = None"
proof -
  assume "match_group1 rx_class_header l = Some n"
  then obtain t where "l = CHR ''c'' # t" by (auto dest: class_header_first_char)
  then show ?thesis by (simp add: method_header_not_c)
qed

lemma skip_class_span_stop:
  "j \<le> k \<Longrightarrow> k < length lines \<Longrightarrow> strip (lines ! k) \<noteq> [] \<Longrightarrow>
   \<not> startswith (lines ! k) '' '' \<Longrightarrow> \<not> startswith (lines ! k) [CHR 0x09] \<Longrightarrow>
   skip_class_span lines j \<le> k"
proof (induction lines j rule: skip_class_span.induct)
  case (1 lines j)
  show ?case
  proof (cases "j = k")
    case True
    with 1(3-) show ?thesis by (subst skip_class_span.simps) simp
  next
    case False
    with 1(2) have "Suc j \<le> k" by simp
    with 1 show ?thesis by (subst skip_class_span.simps) auto
  qed
qed

lemma span_end_stop:
  "j \<le> k \<Longrightarrow> k < length lines \<Longrightarrow> strip (lines ! k) \<noteq> [] \<Longrightarrow>
   indent_of (lines ! k) = 0 \<Longrightarrow> span_end lines n j \<le> k"
proof (induction lines n j rule: span_end.induct)
  case (1 lines n j)
  show ?case
  proof (cases "j = k")
    case True
    with 1(3-) show ?thesis by (subst span_end.simps) simp
  next
    case False
    with 1(2) have "Suc j \<le> k" by simp
    with 1 show ?thesis by (subst span_end.simps) auto
  qed
qed

definition class_name_of :: "string \<Rightarrow> string option" where
  "class_name_of l = match_group1 rx_class_header (strip l)"

lemma method_check_keeps_classes:
  "method_check lines i line st = (keep, i', st') \<Longrightarrow> fst st' = fst st"
  by (auto simp: method_check_def Let_def split: prod.splits option.splits if_splits)

lemma pass1_step_index:
  "pass1_step lines i st = (keep, i', st') \<Longrightarrow>
   i' = Suc i \<or> i' = skip_class_span lines (Suc i)
   \<or> i' = span_end lines (indent_of (lines ! i)) (Suc i)"
  by (auto simp: pass1_step_def method_check_def Let_def
           split: prod.splits option.splits if_splits)

lemma pass1_step_classes:
  "pass1_step lines i st = (keep, i', st') \<Longrightarrow> c \<in> fst ` set (fst st') \<Longrightarrow>
   c \<in> fst ` set (fst st) \<or> class_name_of (lines ! i) = Some c"
  by (auto simp: pass1_step_def class_name_of_def Let_def
           split: prod.splits option.splits if_splits
           dest!: method_check_keeps_classes)

lemma pass1_step_keeps_new_class:
  "class_name_of (lines ! i) = Some n \<Longrightarrow> n \<notin> fst ` set (fst st) \<Longrightarrow>
   fst (pass1_step lines i st)"
  by (auto simp: pass1_step_def class_name_of_def method_check_def Let_def
                 class_header_not_method
           split: prod.splits)

lemma top_level_line:
  assumes "class_name_of l = Some n" and "indent_of l = 0"
  shows "strip l \<noteq> [] \<and> \<not> startswith l '' '' \<and> \<not> startswith l [CHR 0x09]"
proof -
  from assms(1) have s: "strip l \<noteq> []"
    by (auto simp: class_name_of_def dest: class_header_first_char)
  then have "l \<noteq> []" by (auto simp: strip_def lstrip_def rstrip_def)
  then obtain c t where l: "l = c # t" by (cases l) auto
  have "length (dropWhile isspace l) \<le> length l" by (rule length_dropWhile_le)
  with assms(2) have "length (dropWhile isspace l) = length l"
    by (simp add: indent_of_def lstrip_def)
  moreover have "length (dropWhile isspace t) \<le> length t" by (rule length_dropWhile_le)
  ultimately have "\<not> isspace c" using l by (auto split: if_splits)
  then have "c \<noteq> CHR '' '' \<and> c \<noteq> CHR 0x09" by (auto simp: isspace_def)
  with s l show ?thesis by (auto simp: startswith_def)
qed

lemma pass1_keeps_first_header:
  "k < length lines \<Longrightarrow> class_name_of (lines ! k) = Some n \<Longrightarrow> indent_of (lines ! k) = 0 \<Longrightarrow>
   \<forall>j<k. class_name_of (lines ! j) \<noteq> Some n \<Longrightarrow>
   i \<le> k \<Longrightarrow> n \<notin> fst ` set (fst st) \<Longrightarrow> lines ! k \<in> set (pass1 lines i st)"
proof (induction lines i st rule: pass1.induct)
  case (1 lines i st)
  from 1(2,6) have lt: "i < length lines" by simp
  obtain keep i' st' where step: "pass1_step lines i st = (keep, i', st')"
    by (cases "pass1_step lines i st") auto
  have e: "pass1 lines i st = (if keep then [lines ! i] else []) @ pass1 lines i' st'"
    using lt step by (subst pass1.simps) simp
  show ?case
  proof (cases "i = k")
    case True
    with step have keep
      using 1(3) 1(7) pass1_step_keeps_new_class [of lines k n st] by simp
    with True e show ?thesis by simp
  next
    case False
    with 1(6) have ik: "i < k" by simp
    note tl = top_level_line [OF 1(3) 1(4)]
    have "i' \<le> k"
      using pass1_step_index [OF step] ik
        skip_class_span_stop [of "Suc i" k lines] span_end_stop [of "Suc i" k lines] tl 1(2,4)
      by auto
    moreover have "n \<notin> fst ` set (fst st')"
      using pass1_step_classes [OF step, of n] 1(5,7) ik by auto
    ultimately have "lines ! k \<in> set (pass1 lines i' st')"
      using 1(1) [OF lt step [symmetric] refl 1(2) 1(3) 1(4) 1(5)] by simp
    then show ?thesis by (simp add: e)
  qed
qed

definition nested_header_example :: string where
  "nested_header_example = join nl
     [''def f():'',
      ''    pass'',
      ''def f():'',
      ''    class A:'',
      ''        pass'',
      ''class A:'',
      ''    pass'']"

definition repeated_class_example :: string where
  "repeated_class_example = join nl
     [''class A:'',
      ''    def f(self):'',
      ''        return 1'',
      ''class A:'',
      ''    def f(self):'',
      ''        return 2'',
      ''x = A()'']"

text \<open>
  Claim C10.  The first pass only deletes whole lines: \<^verbatim>\<open>fixed_lines\<close> is a subsequence of
  the lines of the input.  For every class name, the first header line naming it is kept
  when that line is not indented.
\<close>

theorem pass1_only_deletes_lines:
  "subseq (fixed_lines code) (split code nl) \<and>
   (k < length (split code nl) \<and> class_name_of (split code nl ! k) = Some n
      \<and> indent_of (split code nl ! k) = 0
      \<and> (\<forall>j<k. class_name_of (split code nl ! j) \<noteq> Some n)
    \<longrightarrow> split code nl ! k \<in> set (fixed_lines code))"
proof
  show "subseq (fixed_lines code) (split code nl)"
    using pass1_subseq [of "split code nl" 0] by (simp add: fixed_lines_def)
  show "k < length (split code nl) \<and> class_name_of (split code nl ! k) = Some n
      \<and> indent_of (split code nl ! k) = 0
      \<and> (\<forall>j<k. class_name_of (split code nl ! j) \<noteq> Some n)
    \<longrightarrow> split code nl ! k \<in> set (fixed_lines code)"
    using pass1_keeps_first_header [of k "split code nl" n 0 "([], Map.empty)"]
    by (simp add: fixed_lines_def)
qed

theorem pass1_only_deletes_lines_witness:
  "fixed_lines repeated_class_example =
     [''class A:'', ''    def f(self):'', ''        return 1'', ''x = A()'']
   \<and> subseq (fixed_lines repeated_class_example) (split repeated_class_example nl)
   \<and> split repeated_class_example nl ! 0 \<in> set (fixed_lines repeated_class_example)"
proof -
  have l: "split repeated_class_example nl =
     [''class A:'', ''    def f(self):'', ''        return 1'',
      ''class A:'', ''    def f(self):'', ''        return 2'', ''x = A()'']"
    by code_simp
  have h: "0 < length (split repeated_class_example nl)
      \<and> class_name_of (split repeated_class_example nl ! 0) = Some ''A''
      \<and> indent_of (split repeated_class_example nl ! 0) = 0
      \<and> (\<forall>j<0. class_name_of (split repeated_class_example nl ! j) \<noteq> Some ''A'')"
    unfolding l by code_simp
  have f: "fixed_lines repeated_class_example =
     [''class A:'', ''    def f(self):'', ''        return 1'', ''x = A()'']"
    by code_simp
  from pass1_only_deletes_lines [of repeated_class_example 0 "''A''"] h f
  show ?thesis by blast
qed

text \<open>
  A first header that is indented can lie in the span of a repeated definition and is then
  deleted with it: here line 3 is the first header of class \<open>A\<close>, inside the second
  \<^verbatim>\<open>def f\<close>.
\<close>

theorem first_header_not_retained_counterexample:
  "class_name_of (split nested_header_example nl ! 3) = Some ''A''
   \<and> class_name_of (split nested_header_example nl ! 0) \<noteq> Some ''A''
   \<and> class_name_of (split nested_header_example nl ! 1) \<noteq> Some ''A''
   \<and> class_name_of (split nested_header_example nl ! 2) \<noteq> Some ''A''
   \<and> split nested_header_example nl ! 3 \<notin> set (fixed_lines nested_header_example)
   \<and> fixed_lines nested_header_example = [''def f():'', ''    pass'', ''class A:'', ''    pass'']"
  by code_simp

section \<open>The Import Consolidator: \<^verbatim>\<open>move_imports_to_top\<close>\<close>

text \<open>
  What the code can raise is a value of \<open>exn\<close>, and a function that can raise returns
  \<open>exn + 'a\<close>.  The loop that sorts the lines into \<^verbatim>\<open>import_lines\<close> and
  \<^verbatim>\<open>non_import_lines\<close> is written as two filters, and the loop that sorts the import lines
  into three lists as \<open>categorize_imports\<close>.
\<close>

datatype exn = IndexError | ReError

definition item :: "'a list \<Rightarrow> nat \<Rightarrow> exn + 'a" where
  \<comment> \<open>\<^verbatim>\<open>xs[i]\<close> for \<open>i \<ge> 0\<close>\<close>
  "item xs i = (if i < length xs then Inr (xs ! i) else Inl IndexError)"

definition is_import_line :: "string \<Rightarrow> bool" where
  "is_import_line line =
     (let stripped = strip line
      in startswith stripped ''import ''
         \<or> (startswith stripped ''from '' \<and> contains stripped '' import ''))"

definition std_lib_modules :: "string list" where
  "std_lib_modules =
     [''abc'', ''argparse'', ''array'', ''ast'', ''asyncio'', ''base64'', ''bisect'', ''calendar'',
      ''collections'', ''concurrent'', ''contextlib'', ''copy'', ''csv'', ''datetime'', ''decimal'',
      ''difflib'', ''enum'', ''errno'', ''fnmatch'', ''functools'', ''gc'', ''glob'', ''gzip'',
      ''hashlib'', ''heapq'', ''hmac'', ''html'', ''http'', ''importlib'', ''inspect'', ''io'',
      ''itertools'', ''json'', ''logging'', ''math'', ''multiprocessing'', ''operator'', ''os'',
      ''pathlib'', ''pickle'', ''platform'', ''pprint'', ''queue'', ''random'', ''re'', ''shutil'',
      ''signal'', ''socket'', ''sqlite3'', ''ssl'', ''statistics'', ''string'', ''struct'',
      ''subprocess'', ''sys'', ''tempfile'', ''threading'', ''time'', ''timeit'', ''traceback'',
      ''types'', ''typing'', ''uuid'', ''warnings'', ''weakref'', ''xml'', ''xmlrpc'', ''zipfile'',
      ''zlib'']"

definition import_module :: "string \<Rightarrow> exn + string" where
  \<comment> \<open>the module name taken from a stripped import line\<close>
  "import_module stripped =
     (if startswith stripped ''from '' then
        (case item (split stripped ''from '') 1 of Inl e \<Rightarrow> Inl e | Inr a \<Rightarrow>
         (case item (split a '' import'') 0 of Inl e \<Rightarrow> Inl e | Inr b \<Rightarrow>
          item (split b ''.'') 0))
      else
        (case item (split stripped ''import '') 1 of Inl e \<Rightarrow> Inl e | Inr a \<Rightarrow>
         (case item (split a '' as '') 0 of Inl e \<Rightarrow> Inl e | Inr b \<Rightarrow>
          (case item (split b '','') 0 of Inl e \<Rightarrow> Inl e | Inr c \<Rightarrow> Inr (strip c)))))"

datatype import_group = Standard | ThirdParty | Local

definition categorize :: "string \<Rightarrow> exn + import_group" where
  "categorize line =
     (case import_module (strip line) of
        Inl e \<Rightarrow> Inl e
      | Inr module \<Rightarrow>
          Inr (if module \<in> set std_lib_modules then Standard
               else if startswith module ''.'' then Local
               else ThirdParty))"

fun categorize_imports ::
  "string list \<Rightarrow> string list \<times> string list \<times> string list
   \<Rightarrow> exn + (string list \<times> string list \<times> string list)" where
  "categorize_imports [] acc = Inr acc"
| "categorize_imports (line # rest) (std_lib_imports, third_party_imports, local_imports) =
     (case categorize line of
        Inl e \<Rightarrow> Inl e
      | Inr Standard \<Rightarrow>
          categorize_imports rest (std_lib_imports @ [line], third_party_imports, local_imports)
      | Inr Local \<Rightarrow>
          categorize_imports rest (std_lib_imports, third_party_imports, local_imports @ [line])
      | Inr ThirdParty \<Rightarrow>
          categorize_imports rest (std_lib_imports, third_party_imports @ [line], local_imports))"

definition move_imports_to_top :: "string \<Rightarrow> exn + string" where
  "move_imports_to_top code =
     (let lines = split code nl;
          import_lines = filter is_import_line lines;
          non_import_lines = filter (\<lambda>line. \<not> is_import_line line) lines
      in if import_lines = [] then Inr code
         else
           (case categorize_imports import_lines ([], [], []) of
              Inl e \<Rightarrow> Inl e
            | Inr (std_lib_imports, third_party_imports, local_imports) \<Rightarrow>
                (let all_imports = std_lib_imports @ [[]] @ third_party_imports @ [[]] @ local_imports;
                     kept = filter (\<lambda>imp. imp \<noteq> []) all_imports;
                     all_imports = (if kept \<noteq> [] then kept else [[]]);
                     all_imports =
                       (if all_imports \<noteq> []
                           \<and> (case non_import_lines of [] \<Rightarrow> False | l # _ \<Rightarrow> strip l \<noteq> [])
                        then all_imports @ [[]] else all_imports)
                 in Inr (join nl (all_imports @ non_import_lines)))))"

declare split.simps [simp del]

lemma find_sub_nl_None: "CHR 0x0A \<notin> set s \<Longrightarrow> find_sub nl s = None"
  by (induction s) (auto simp: nl_def)

lemma find_sub_nl_Some: "CHR 0x0A \<notin> set a \<Longrightarrow> find_sub nl (a @ nl @ b) = Some (a, b)"
  by (induction a) (auto simp: nl_def)

lemma find_sub_nl_cases:
  "find_sub nl s = None \<and> CHR 0x0A \<notin> set s
   \<or> (\<exists>a b. find_sub nl s = Some (a, b) \<and> s = a @ nl @ b \<and> CHR 0x0A \<notin> set a)"
proof (induction s)
  case Nil
  then show ?case by (simp add: nl_def)
next
  case (Cons c s)
  then show ?case by (cases "c = CHR 0x0A") (auto simp: nl_def)
qed

lemma nl_nonempty: "nl \<noteq> []"
  by (simp add: nl_def)

lemma split_nl_single: "CHR 0x0A \<notin> set l \<Longrightarrow> split l nl = [l]"
  by (subst split.simps) (simp add: find_sub_nl_None nl_nonempty)

lemma split_nl_append: "CHR 0x0A \<notin> set a \<Longrightarrow> split (a @ nl @ b) nl = a # split b nl"
  by (subst split.simps) (simp add: find_sub_nl_Some nl_nonempty)

lemma split_join:
  "ls \<noteq> [] \<Longrightarrow> \<forall>l\<in>set ls. CHR 0x0A \<notin> set l \<Longrightarrow> split (join nl ls) nl = ls"
proof (induction ls)
  case Nil
  then show ?case by simp
next
  case (Cons x ys)
  show ?case
  proof (cases ys)
    case Nil
    with Cons.prems show ?thesis by (simp add: split_nl_single)
  next
    case (Cons y zs)
    with Cons.IH Cons.prems have "split (join nl (y # zs)) nl = y # zs" by simp
    with Cons Cons.prems show ?thesis by (simp add: split_nl_append)
  qed
qed

lemma split_lines_no_nl: "l \<in> set (split s nl) \<Longrightarrow> CHR 0x0A \<notin> set l"
proof (induction s nl arbitrary: l rule: split.induct)
  case (1 s)
  from find_sub_nl_cases [of s] show ?case
  proof (elim disjE conjE exE)
    assume "find_sub nl s = None" "CHR 0x0A \<notin> set s"
    with 1(2) show ?thesis by (subst (asm) split.simps) (simp add: nl_def)
  next
    fix a b assume f: "find_sub nl s = Some (a, b)" and a: "CHR 0x0A \<notin> set a"
    have "split s nl = a # split b nl" using f by (subst split.simps) (simp add: nl_def)
    with 1(2) have "l = a \<or> l \<in> set (split b nl)" by simp
    then show ?thesis
    proof
      assume "l = a" with a show ?thesis by simp
    next
      assume "l \<in> set (split b nl)"
      with 1(1) [OF _ f] show ?thesis by (simp add: nl_def)
    qed
  qed
qed

lemma split_nonempty: "split s sep \<noteq> []"
  by (subst split.simps) (simp split: option.splits)


lemma split_prefix:
  "prefix sep s \<Longrightarrow> sep \<noteq> [] \<Longrightarrow> split s sep = [] # split (drop (length sep) s) sep"
  by (cases s) (subst split.simps, simp)+

lemma item_split_0: "\<exists>x. item (split s sep) 0 = Inr x"
  using split_nonempty [of s sep] by (simp add: item_def)

lemma item_split_1: "prefix sep s \<Longrightarrow> sep \<noteq> [] \<Longrightarrow> \<exists>x. item (split s sep) 1 = Inr x"
  using split_nonempty [of "drop (length sep) s" sep] by (simp add: split_prefix item_def)

lemma import_module_total:
  "startswith stripped ''from '' \<or> startswith stripped ''import '' \<Longrightarrow>
   \<exists>m. import_module stripped = Inr m"
proof (cases "startswith stripped ''from ''")
  case True
  then obtain a where a: "item (split stripped ''from '') 1 = Inr a"
    using item_split_1 [of "''from ''" stripped] by (auto simp: startswith_def)
  obtain b where b: "item (split a '' import'') 0 = Inr b"
    using item_split_0 by blast
  obtain c where c: "item (split b ''.'') 0 = Inr c"
    using item_split_0 by blast
  show ?thesis using True a b c by (simp add: import_module_def)
next
  case False
  assume "startswith stripped ''from '' \<or> startswith stripped ''import ''"
  with False have "startswith stripped ''import ''" by simp
  then obtain a where a: "item (split stripped ''import '') 1 = Inr a"
    using item_split_1 [of "''import ''" stripped] by (auto simp: startswith_def)
  obtain b where b: "item (split a '' as '') 0 = Inr b"
    using item_split_0 by blast
  obtain c where c: "item (split b '','') 0 = Inr c"
    using item_split_0 by blast
  show ?thesis using False a b c by (simp add: import_module_def)
qed

lemma categorize_total: "is_import_line line \<Longrightarrow> \<exists>g. categorize line = Inr g"
proof -
  assume "is_import_line line"
  then have "startswith (strip line) ''from '' \<or> startswith (strip line) ''import ''"
    by (auto simp: is_import_line_def Let_def)
  from import_module_total [OF this] show ?thesis by (auto simp: categorize_def)
qed

definition in_group :: "import_group \<Rightarrow> string \<Rightarrow> bool" where
  "in_group g line = (categorize line = Inr g)"

lemma categorize_imports_filter:
  "\<forall>l\<in>set ls. is_import_line l \<Longrightarrow>
   categorize_imports ls (a, b, c) =
     Inr (a @ filter (in_group Standard) ls, b @ filter (in_group ThirdParty) ls,
          c @ filter (in_group Local) ls)"
proof (induction ls arbitrary: a b c)
  case Nil
  then show ?case by simp
next
  case (Cons l ls)
  from Cons.prems obtain g where g: "categorize l = Inr g"
    using categorize_total [of l] by auto
  from Cons.prems have r: "\<forall>l\<in>set ls. is_import_line l" by simp
  show ?case using g by (cases g) (simp_all add: Cons.IH [OF r] in_group_def)
qed

definition import_lines_of :: "string \<Rightarrow> string list" where
  "import_lines_of code = filter is_import_line (split code nl)"

definition non_import_lines_of :: "string \<Rightarrow> string list" where
  "non_import_lines_of code = filter (\<lambda>line. \<not> is_import_line line) (split code nl)"

definition grouped :: "string list \<Rightarrow> string list" where
  "grouped ls = filter (in_group Standard) ls @ filter (in_group ThirdParty) ls
                @ filter (in_group Local) ls"

lemma empty_not_import: "\<not> is_import_line []"
  by (simp add: is_import_line_def strip_def lstrip_def rstrip_def startswith_def)

lemma in_group_filter:
  "filter (in_group g) (filter (in_group h) ls) = (if g = h then filter (in_group g) ls else [])"
  by (induction ls) (auto simp: in_group_def)

lemma grouped_group: "filter (in_group g) (grouped ls) = filter (in_group g) ls"
  by (cases g) (simp_all add: grouped_def in_group_filter del: filter_filter)

lemma grouped_mset: "\<forall>l\<in>set ls. is_import_line l \<Longrightarrow> mset (grouped ls) = mset ls"
proof (induction ls)
  case Nil
  then show ?case by (simp add: grouped_def)
next
  case (Cons l ls)
  from Cons.prems obtain g where g: "categorize l = Inr g"
    using categorize_total [of l] by auto
  from Cons have "mset (grouped ls) = mset ls" by simp
  then show ?case using g by (cases g) (simp_all add: grouped_def in_group_def)
qed

lemma grouped_imports:
  "\<forall>l\<in>set ls. is_import_line l \<Longrightarrow> filter is_import_line (grouped ls) = grouped ls"
  by (simp add: grouped_def filter_id_conv del: filter_filter)

lemma move_imports_to_top_lines:
  "\<exists>out sep. move_imports_to_top code = Inr out \<and> (sep = [] \<or> sep = [[]])
     \<and> split out nl = grouped (import_lines_of code) @ sep @ non_import_lines_of code"
proof (cases "import_lines_of code = []")
  case True
  then have "\<forall>l\<in>set (split code nl). \<not> is_import_line l"
    by (simp add: import_lines_of_def filter_empty_conv)
  then have "non_import_lines_of code = split code nl"
    by (simp add: non_import_lines_of_def)
  with True show ?thesis
    by (simp add: move_imports_to_top_def Let_def import_lines_of_def [symmetric] grouped_def)
next
  case False
  let ?I = "import_lines_of code" and ?N = "non_import_lines_of code"
  have imp: "\<forall>l\<in>set ?I. is_import_line l" by (simp add: import_lines_of_def)
  have cat: "categorize_imports ?I ([], [], []) =
      Inr (filter (in_group Standard) ?I, filter (in_group ThirdParty) ?I,
           filter (in_group Local) ?I)"
    using categorize_imports_filter [OF imp, of "[]" "[]" "[]"] by simp
  have nonempty: "\<forall>l\<in>set ?I. l \<noteq> []" using imp empty_not_import by auto
  have kept: "filter (\<lambda>imp. imp \<noteq> [])
      (filter (in_group Standard) ?I @ [[]] @ filter (in_group ThirdParty) ?I @ [[]]
       @ filter (in_group Local) ?I) = grouped ?I"
    using nonempty by (simp add: grouped_def filter_id_conv del: filter_filter)
  have "mset (grouped ?I) = mset ?I" using imp by (rule grouped_mset)
  with False have g: "grouped ?I \<noteq> []" by auto
  define sep where "sep = (if (case ?N of [] \<Rightarrow> False | l # _ \<Rightarrow> strip l \<noteq> []) then [[]] else ([] :: string list))"
  have out: "move_imports_to_top code = Inr (join nl (grouped ?I @ sep @ ?N))"
    using False cat kept g
    by (simp add: move_imports_to_top_def Let_def import_lines_of_def [symmetric]
                  non_import_lines_of_def [symmetric] sep_def del: filter_append)
  have "\<forall>l\<in>set (grouped ?I @ sep @ ?N). CHR 0x0A \<notin> set l"
    by (auto simp: grouped_def sep_def import_lines_of_def non_import_lines_of_def
             dest: split_lines_no_nl)
  then have "split (join nl (grouped ?I @ sep @ ?N)) nl = grouped ?I @ sep @ ?N"
    using g by (intro split_join) auto
  moreover have "sep = [] \<or> sep = [[]]" by (simp add: sep_def)
  ultimately show ?thesis using out by blast
qed

text \<open>
  Claim C5.  For every input, \<^verbatim>\<open>move_imports_to_top\<close> returns normally, and its output
  consists of the import lines of the input, grouped, then at most one blank line, then the
  other lines of the input in their order.  The import lines of the output are those of the
  input: as many, the same ones with their multiplicities, and in the same relative order
  within each of the three groups.
\<close>

theorem move_imports_stable_partition:
  "\<exists>out sep. move_imports_to_top code = Inr out \<and> (sep = [] \<or> sep = [[]])
     \<and> split out nl = grouped (import_lines_of code) @ sep @ non_import_lines_of code
     \<and> import_lines_of out = grouped (import_lines_of code)
     \<and> non_import_lines_of out = sep @ non_import_lines_of code
     \<and> length (import_lines_of out) = length (import_lines_of code)
     \<and> mset (import_lines_of out) = mset (import_lines_of code)
     \<and> (\<forall>g. filter (in_group g) (import_lines_of out)
              = filter (in_group g) (import_lines_of code))"
proof -
  let ?I = "import_lines_of code" and ?N = "non_import_lines_of code"
  obtain out sep where out: "move_imports_to_top code = Inr out"
    and sep: "sep = [] \<or> sep = [[]]"
    and lines: "split out nl = grouped ?I @ sep @ ?N"
    using move_imports_to_top_lines [of code] by blast
  have imp: "\<forall>l\<in>set ?I. is_import_line l" by (simp add: import_lines_of_def)
  have gi: "filter is_import_line (grouped ?I) = grouped ?I"
    using imp by (rule grouped_imports)
  have gn: "filter (\<lambda>l. \<not> is_import_line l) (grouped ?I) = []"
    using imp by (auto simp: grouped_def)
  have si: "filter is_import_line sep = []" and sn: "filter (\<lambda>l. \<not> is_import_line l) sep = sep"
    using sep empty_not_import by auto
  have ni: "filter is_import_line ?N = []" and nn: "filter (\<lambda>l. \<not> is_import_line l) ?N = ?N"
    by (simp_all add: non_import_lines_of_def)
  have i: "import_lines_of out = grouped ?I"
    by (simp add: import_lines_of_def [of out] lines gi si ni)
  have n: "non_import_lines_of out = sep @ ?N"
    by (simp add: non_import_lines_of_def [of out] lines gn sn nn)
  have m: "mset (grouped ?I) = mset ?I" using imp by (rule grouped_mset)
  then have "size (mset (grouped ?I)) = size (mset ?I)" by simp
  then have l: "length (grouped ?I) = length ?I" by simp
  show ?thesis using out sep lines i n m l by (auto simp: grouped_group)
qed

definition two_groups_example :: string where
  "two_groups_example = join nl [''import numpy'', ''import os'', ''x = 1'']"

text \<open>
  Claim C4.  A Standard and a ThirdParty import come out on adjacent lines: the filter that
  drops the empty entries of \<^verbatim>\<open>all_imports\<close> drops the two separators as well.
\<close>

theorem import_groups_not_separated:
  "in_group ThirdParty ''import numpy'' \<and> in_group Standard ''import os''
   \<and> move_imports_to_top two_groups_example
       = Inr (join nl [''import os'', ''import numpy'', [], ''x = 1''])"
  by code_simp

section \<open>The Declaration Reorderer: \<^verbatim>\<open>reorder_code\<close>\<close>

text \<open>
  The first loop runs over the indices of the lines with the state \<open>reorder_state\<close>; the
  loop that sorts the blocks into five lists is written as five filters by tag.
\<close>

definition sq :: string where
  \<comment> \<open>the single quote\<close>
  "sq = [CHR 0x27]"

definition dq :: string where
  \<comment> \<open>the double quote\<close>
  "dq = [CHR 0x22]"

definition rx_def_line :: rx where
  \<comment> \<open>\<^verbatim>\<open>^def\s+\w+\s*\(\<close>\<close>
  "rx_def_line =
     seqs [Bos, lit ''def'', plus (Sym isspace), plus (Sym isword), Star (Sym isspace), Chr CHR ''('']"

definition rx_class_line :: rx where
  \<comment> \<open>\<^verbatim>\<open>^class\s+\w+\<close>\<close>
  "rx_class_line = seqs [Bos, lit ''class'', plus (Sym isspace), plus (Sym isword)]"

definition isquote :: "char \<Rightarrow> bool" where
  \<comment> \<open>the class \<^verbatim>\<open>['"]\<close>\<close>
  "isquote c = (c = CHR 0x27 \<or> c = CHR 0x22)"

definition rx_main_line :: rx where
  \<comment> \<open>\<^verbatim>\<open>^if\s+__name__\s*==\s*['"]__main__['"]\<close>\<close>
  "rx_main_line =
     seqs [Bos, lit ''if'', plus (Sym isspace), lit ''__name__'', Star (Sym isspace), lit ''=='',
           Star (Sym isspace), Sym isquote, lit ''__main__'', Sym isquote]"

definition matches :: "rx \<Rightarrow> string \<Rightarrow> bool" where
  \<comment> \<open>the truth value of \<^verbatim>\<open>re.match(r, s)\<close>\<close>
  "matches r s = (re_match r s \<noteq> None)"

record reorder_state =
  code_blocks :: "string list list"
  current_block :: "string list"
  in_function_def :: bool
  in_class_def :: bool
  in_docstring :: bool

definition start_block :: "reorder_state \<Rightarrow> reorder_state" where
  \<comment> \<open>\<^verbatim>\<open>if current_block: code_blocks.append(current_block); current_block = []\<close>\<close>
  "start_block st =
     (if current_block st \<noteq> []
      then st\<lparr>code_blocks := code_blocks st @ [current_block st], current_block := []\<rparr>
      else st)"

definition add_line :: "string \<Rightarrow> reorder_state \<Rightarrow> reorder_state" where
  "add_line line st = st\<lparr>current_block := current_block st @ [line]\<rparr>"

definition reorder_step :: "string list \<Rightarrow> nat \<Rightarrow> reorder_state \<Rightarrow> reorder_state" where
  \<comment> \<open>the body of the first loop at \<^verbatim>\<open>i, line\<close>\<close>
  "reorder_step lines i st =
     (let line = lines ! i; line_stripped = strip line
      in if line_stripped = [] then
           (if current_block st \<noteq> [] \<and> i > 0 \<and> strip (lines ! (i - 1)) = [] then st
            else add_line [] st)
         else if matches rx_def_line line_stripped then
           add_line line ((start_block st)\<lparr>in_function_def := True\<rparr>)
         else if matches rx_class_line line_stripped then
           add_line line ((start_block st)\<lparr>in_class_def := True\<rparr>)
         else if startswith line_stripped (dq @ dq @ dq) \<or> startswith line_stripped (sq @ sq @ sq)
         then add_line line (st\<lparr>in_docstring := \<not> in_docstring st\<rparr>)
         else if in_function_def st \<or> in_class_def st \<or> startswith line_stripped ''#''
         then add_line line st
         else if matches rx_main_line line_stripped then add_line line (start_block st)
         else add_line line st)"

definition divide_blocks :: "string list \<Rightarrow> string list list" where
  \<comment> \<open>the first pass: the logical blocks of the lines\<close>
  "divide_blocks lines =
     code_blocks (start_block
       (fold (reorder_step lines) [0..<length lines]
          \<lparr>code_blocks = [], current_block = [], in_function_def = False,
           in_class_def = False, in_docstring = False\<rparr>))"

datatype block_tag = Import | Class | Function | Main | Other

definition is_import_block :: "string list \<Rightarrow> bool" where
  "is_import_block block =
     list_all (\<lambda>line. let stripped = strip line
                      in \<not> (stripped \<noteq> []
                            \<and> \<not> (startswith stripped ''import ''
                                  \<or> (startswith stripped ''from '' \<and> contains stripped '' import '')
                                  \<or> stripped = []))) block"

definition block_tag_of :: "string list \<Rightarrow> block_tag" where
  "block_tag_of block =
     (let first_line = strip (hd block)
      in if is_import_block block \<and> list_ex (\<lambda>line. strip line \<noteq> []) block then Import
         else if startswith first_line ''class '' then Class
         else if startswith first_line ''def '' then Function
         else if startswith first_line ''if __name__'' then Main
         else Other)"

definition blocks_of :: "block_tag \<Rightarrow> string list list \<Rightarrow> string list list" where
  "blocks_of t blocks = filter (\<lambda>block. block \<noteq> [] \<and> block_tag_of block = t) blocks"

definition ordered_blocks :: "string list list \<Rightarrow> string list list" where
  "ordered_blocks blocks =
     blocks_of Import blocks @ blocks_of Class blocks @ blocks_of Function blocks
     @ blocks_of Other blocks @ blocks_of Main blocks"

fun final_lines :: "nat \<Rightarrow> string list list \<Rightarrow> string list" where
  \<comment> \<open>the second loop, from the block of index \<open>i\<close> on\<close>
  "final_lines i [] = []"
| "final_lines i (block # rest) =
     (if i > 0 \<and> block \<noteq> [] then [[]] else []) @ block @ final_lines (Suc i) rest"

definition reorder_code :: "string \<Rightarrow> string" where
  "reorder_code code =
     (let lines = split code nl;
          cleaned_lines = map rstrip (final_lines 0 (ordered_blocks (divide_blocks lines)));
          reordered_code = join nl cleaned_lines
      in if reordered_code \<noteq> [] \<and> \<not> endswith reordered_code nl then reordered_code @ nl
         else reordered_code)"


definition guard_example :: string where
  "guard_example = join nl
     [''x = 1'',
      ''def f():'',
      ''    pass'',
      ''if __name__ == '' @ dq @ ''__main__'' @ dq @ '':'',
      ''    f()'']"


text \<open>
  Claim C2.  A guard line that follows a function header does not start a block: the flag
  \<^verbatim>\<open>in_function_def\<close> is set at the header and never cleared, so the guard stays in the
  function's block, and that block is put before the block of \<^verbatim>\<open>x = 1\<close>.
\<close>

theorem guard_block_not_last:
  "divide_blocks (split guard_example nl)
     = [[''x = 1''],
        [''def f():'', ''    pass'', ''if __name__ == '' @ dq @ ''__main__'' @ dq @ '':'', ''    f()'']]
   \<and> split (reorder_code guard_example) nl
     = [''def f():'', ''    pass'', ''if __name__ == '' @ dq @ ''__main__'' @ dq @ '':'', ''    f()'',
        [], ''x = 1'', []]"
  by code_simp


section \<open>The Artifact Scrubber and the Block Locator\<close>

definition rx_prompt :: rx where
  \<comment> \<open>\<^verbatim>\<open>^(>>>|\.\.\.|In \[\d+\]:|Out\[\d+\]:)\<close>\<close>
  "rx_prompt =
     Seq Bos (Grp 1 (Alt (lit ''>>>'') (Alt (lit ''...'')
       (Alt (seqs [lit ''In ['', plus (Sym isdecimal), lit '']:''])
            (seqs [lit ''Out['', plus (Sym isdecimal), lit '']:''])))))"

definition rx_out_number :: rx where
  \<comment> \<open>\<^verbatim>\<open>^(\[\d+\]:)\<close>\<close>
  "rx_out_number = Seq Bos (Grp 1 (seqs [lit ''['', plus (Sym isdecimal), lit '']:'']))"

definition rx_object_repr :: rx where
  \<comment> \<open>\<^verbatim>\<open>^<(\w+) (object|at) .+>\<close>\<close>
  "rx_object_repr =
     seqs [Bos, lit ''<'', Grp 1 (plus (Sym isword)), lit '' '',
           Grp 2 (Alt (lit ''object'') (lit ''at'')), lit '' '', plus (Sym notnl), lit ''>'']"

definition is_artifact :: "string \<Rightarrow> bool" where
  \<comment> \<open>the lines that \<^verbatim>\<open>clean_code_for_execution\<close> skips\<close>
  "is_artifact line =
     (matches rx_prompt (strip line) \<or> matches rx_out_number (strip line)
      \<or> matches rx_object_repr (strip line))"

definition clean_code_for_execution :: "string \<Rightarrow> exn + string" where
  "clean_code_for_execution code =
     (let lines = split code nl;
          cleaned_lines = filter (\<lambda>line. \<not> is_artifact line) lines;
          code = join nl cleaned_lines;
          code = reorder_code code
      in move_imports_to_top code)"

definition indented_body :: rx where
  \<comment> \<open>\<^verbatim>\<open>(?:\n\s+.+)+\<close>\<close>
  "indented_body = plus (seqs [lit nl, plus (Sym isspace), plus (Sym notnl)])"

definition notrparen :: "char \<Rightarrow> bool" where
  \<comment> \<open>the class \<^verbatim>\<open>[^)]\<close>\<close>
  "notrparen c = (c \<noteq> CHR '')'')"

definition rx_py_def :: rx where
  \<comment> \<open>\<^verbatim>\<open>def\s+\w+\s*\([^)]*\):\s*(?:\n\s+.+)+\<close>\<close>
  "rx_py_def =
     seqs [lit ''def'', plus (Sym isspace), plus (Sym isword), Star (Sym isspace), lit ''('',
           Star (Sym notrparen), lit ''):'', Star (Sym isspace), indented_body]"

definition rx_py_class :: rx where
  \<comment> \<open>\<^verbatim>\<open>class\s+\w+(?:\([^)]*\))?:\s*(?:\n\s+.+)+\<close>\<close>
  "rx_py_class =
     seqs [lit ''class'', plus (Sym isspace), plus (Sym isword),
           opt (seqs [lit ''('', Star (Sym notrparen), lit '')'']), lit '':'',
           Star (Sym isspace), indented_body]"

definition rx_py_if :: rx where
  \<comment> \<open>\<^verbatim>\<open>if\s+.+:\s*(?:\n\s+.+)+\<close>\<close>
  "rx_py_if =
     seqs [lit ''if'', plus (Sym isspace), plus (Sym notnl), lit '':'', Star (Sym isspace),
           indented_body]"

definition rx_py_for :: rx where
  \<comment> \<open>\<^verbatim>\<open>for\s+.+:\s*(?:\n\s+.+)+\<close>\<close>
  "rx_py_for =
     seqs [lit ''for'', plus (Sym isspace), plus (Sym notnl), lit '':'', Star (Sym isspace),
           indented_body]"

definition rx_py_assign :: rx where
  \<comment> \<open>\<^verbatim>\<open>\w+\s*=\s*(?:['"]\w+['"]|\d+|\[.+\]|\{.+\}|\(.+\))\<close>\<close>
  "rx_py_assign =
     seqs [plus (Sym isword), Star (Sym isspace), lit ''='', Star (Sym isspace),
           Alt (seqs [Sym isquote, plus (Sym isword), Sym isquote])
            (Alt (plus (Sym isdecimal))
              (Alt (seqs [lit ''['', plus (Sym notnl), lit '']''])
                (Alt (seqs [lit ''{'', plus (Sym notnl), lit ''}''])
                     (seqs [lit ''('', plus (Sym notnl), lit '')'']))))]"

definition python_patterns :: "rx list" where
  "python_patterns = [rx_py_def, rx_py_class, rx_py_if, rx_py_for, rx_py_assign]"

definition findall0 :: "rx \<Rightarrow> string \<Rightarrow> string list" where
  \<comment> \<open>\<^verbatim>\<open>re.findall\<close> for a pattern without groups: the matched texts\<close>
  "findall0 r s = map (\<lambda>m. group s m 0) (finditer r s)"

definition findall1 :: "rx \<Rightarrow> string \<Rightarrow> string list" where
  \<comment> \<open>\<^verbatim>\<open>re.findall\<close> for a pattern with one group: the texts of the group\<close>
  "findall1 r s = map (\<lambda>m. group s m 1) (finditer r s)"

definition find :: "string \<Rightarrow> string \<Rightarrow> nat option" where
  \<comment> \<open>\<^verbatim>\<open>text.find(frag)\<close>, with \<open>None\<close> for \<open>-1\<close>\<close>
  "find text frag = (case find_sub frag text of None \<Rightarrow> None | Some (a, b) \<Rightarrow> Some (length a))"

definition extract_python_like_code :: "string \<Rightarrow> string option" where
  "extract_python_like_code text =
     (let code_fragments = concat (map (\<lambda>pattern. findall0 pattern text) python_patterns)
      in if code_fragments \<noteq> [] then
           (let positions = concat (map (\<lambda>frag. case find text frag of None \<Rightarrow> []
                                                 | Some n \<Rightarrow> [(n, frag)]) code_fragments)
            in Some (join (nl @ nl) (map snd (sort positions))))
         else None)"

definition rx_fenced :: rx where
  \<comment> \<open>the pattern of a fenced block: three backticks, an optional \<^verbatim>\<open>python\<close>, a newline,
      the group \<^verbatim>\<open>([\s\S]*?)\<close> and three backticks\<close>
  "rx_fenced =
     seqs [lit ''```'', opt (lit ''python''), lit nl, Grp 1 (Lazy (Sym anychar)), lit ''```'']"

definition rx_indented :: rx where
  \<comment> \<open>\<^verbatim>\<open>(?:^|\n)( {4}|\t)(.+)(?:\n|$)\<close>\<close>
  "rx_indented =
     seqs [Alt Bos (lit nl), Grp 1 (Alt (lit ''    '') (Chr (CHR 0x09))), Grp 2 (plus (Sym notnl)),
           Alt (lit nl) Eos]"

definition extract_code_blocks :: "string \<Rightarrow> bool \<Rightarrow> exn + string" where
  "extract_code_blocks text clean_output =
     (let code_blocks = findall1 rx_fenced text
      in if code_blocks \<noteq> [] then
           (let code = join (nl @ nl) code_blocks
            in if clean_output then clean_code_for_execution code else Inr code)
         else
           (let indented_blocks = finditer rx_indented text
            in if indented_blocks \<noteq> [] then
                 (let code = join nl (map (\<lambda>m. group text m 2) indented_blocks)
                  in if clean_output then clean_code_for_execution code else Inr code)
               else if clean_output then
                 (case extract_python_like_code text of
                    Some maybe_code \<Rightarrow>
                      if maybe_code \<noteq> [] then clean_code_for_execution maybe_code
                      else clean_code_for_execution text
                  | None \<Rightarrow> clean_code_for_execution text)
               else Inr text))"

definition fence :: string where
  "fence = ''```''"

lemma run_lit:
  "run (Rx (lit w) # k) s p cs
     = (if prefix w s then run k (drop (length w) s) (p + length w) cs else None)"
proof (induction w arbitrary: s p)
  case Nil
  then show ?case by simp
next
  case (Cons c w)
  show ?case by (cases s) (simp_all add: Cons.IH)
qed

lemma run_seq_lit:
  "run (Rx (Seq (lit w) r) # k) s p cs
     = (if prefix w s then run (Rx r # k) (drop (length w) s) (p + length w) cs else None)"
  by (simp add: run_lit)

definition fence_free :: "string \<Rightarrow> bool" where
  \<comment> \<open>no fence marker in the text, and no backtick at its end\<close>
  "fence_free s = (\<not> contains s fence \<and> (s = [] \<or> last s \<noteq> CHR ''`''))"

lemma contains_Cons: "\<not> contains (c # s) w \<Longrightarrow> \<not> prefix w (c # s) \<and> \<not> contains s w"
  by (auto simp: contains_def split: option.splits if_splits)

lemma fence_free_Cons: "fence_free (c # s) \<Longrightarrow> fence_free s"
  by (auto simp: fence_free_def dest: contains_Cons)

lemma fence_free_no_prefix:
  assumes "fence_free (c # s)"
  shows "\<not> prefix fence (c # s @ fence @ rest)"
proof
  assume p: "prefix fence (c # s @ fence @ rest)"
  from assms have f: "\<not> prefix fence (c # s)" and l: "last (c # s) \<noteq> CHR ''`''"
    by (auto simp: fence_free_def dest: contains_Cons)
  show False
  proof (cases s)
    case Nil
    with p l show False by (auto simp: fence_def)
  next
    case (Cons d s')
    show False
    proof (cases s')
      case Nil
      with p l Cons show False by (auto simp: fence_def)
    next
      case (Cons e s'')
      with p f \<open>s = d # s'\<close> show False by (auto simp: fence_def)
    qed
  qed
qed

declare finditer_from.simps [simp del]

lemma lazy_scan:
  "fence_free inner \<Longrightarrow>
   run [Rx (Lazy (Sym anychar)), Mark i q, Rx (Seq (lit fence) Eps)] (inner @ fence @ rest) p cs
     = Some (rest, p + length inner + 3, (i, q, p + length inner) # cs)"
proof (induction inner arbitrary: p)
  case Nil
  show ?case by (simp add: run_lit) (simp add: fence_def)
next
  case (Cons c inner)
  have n: "\<not> prefix fence (c # inner @ fence @ rest)"
    using Cons.prems by (rule fence_free_no_prefix)
  have f: "fence_free inner" using Cons.prems by (rule fence_free_Cons)
  show ?case using n Cons.IH [OF f, of "Suc p"] by (simp add: run_lit anychar_def)
qed

lemma length_nl: "length nl = 1"
  by (simp add: nl_def)

lemma length_fence: "length fence = 3"
  by (simp add: fence_def)

lemma fenced_body:
  "fence_free inner \<Longrightarrow>
   run [Rx (Seq (lit nl) (Seq (Grp 1 (Lazy (Sym anychar))) (Seq (lit fence) Eps)))]
       (nl @ inner @ fence @ rest) p []
     = Some (rest, p + 1 + length inner + 3, [(1, p + 1, p + 1 + length inner)])"
  by (simp add: run_lit lazy_scan length_nl del: run.simps(10))

lemma fenced_match:
  assumes "tag = [] \<or> tag = ''python''" and "fence_free inner"
  shows "run [Rx rx_fenced] (fence @ tag @ nl @ inner @ fence @ rest) p []
     = Some (rest, p + 3 + length tag + 1 + length inner + 3,
             [(1, p + 3 + length tag + 1, p + 3 + length tag + 1 + length inner)])"
proof -
  let ?body = "Seq (lit nl) (Seq (Grp 1 (Lazy (Sym anychar))) (Seq (lit fence) Eps))"
  define py where "py = ''python''"
  have lp: "length py = 6" by (simp add: py_def)
  have f: "rx_fenced = Seq (lit fence) (Seq (Alt (lit py) Eps) ?body)"
    by (simp add: rx_fenced_def fence_def opt_def py_def)
  have 1: "run [Rx rx_fenced] (fence @ tag @ nl @ inner @ fence @ rest) p []
      = run [Rx (Alt (lit py) Eps), Rx ?body] (tag @ nl @ inner @ fence @ rest) (p + 3) []"
    unfolding f by (simp add: run_lit length_fence del: run.simps(8))
  from assms(1) show ?thesis
  proof
    assume t: "tag = []"
    have n: "\<not> prefix py (nl @ inner @ fence @ rest)" by (simp add: nl_def py_def)
    have "run [Rx (Alt (lit py) Eps), Rx ?body] (nl @ inner @ fence @ rest) (p + 3) []
        = run [Rx ?body] (nl @ inner @ fence @ rest) (p + 3) []"
      using n by (simp add: run_lit del: run.simps(7))
    with 1 fenced_body [OF assms(2), of rest "p + 3"] show ?thesis by (simp add: t)
  next
    assume t: "tag = ''python''"
    have "run [Rx (Alt (lit py) Eps), Rx ?body] (py @ nl @ inner @ fence @ rest) (p + 3) []
        = (case run [Rx ?body] (nl @ inner @ fence @ rest) (p + 3 + 6) [] of
             Some m \<Rightarrow> Some m
           | None \<Rightarrow> run [Rx ?body] (py @ nl @ inner @ fence @ rest) (p + 3) [])"
      by (simp add: run_lit lp del: run.simps(7) cong: option.case_cong)
    with 1 fenced_body [OF assms(2), of rest "p + 3 + 6"] show ?thesis
      by (simp add: t py_def [symmetric] lp)
  qed
qed

lemma fenced_no_match: "\<not> prefix fence s \<Longrightarrow> run [Rx rx_fenced] s p [] = None"
proof -
  assume n: "\<not> prefix fence s"
  have f: "rx_fenced = Seq (lit fence) (Seq (opt (lit ''python''))
      (Seq (lit nl) (Seq (Grp 1 (Lazy (Sym anychar))) (Seq (lit fence) Eps))))"
    by (simp add: rx_fenced_def fence_def)
  show ?thesis unfolding f using n by (simp only: run_seq_lit if_False)
qed

lemma finditer_no_fence: "\<not> contains s fence \<Longrightarrow> finditer_from rx_fenced s p = []"
proof (induction s arbitrary: p)
  case Nil
  have "\<not> prefix fence []" by (simp add: fence_def)
  then show ?case by (subst finditer_from.simps) (simp add: fenced_no_match)
next
  case (Cons c s)
  from contains_Cons [OF Cons.prems] Cons.IH show ?case
    by (subst finditer_from.simps) (simp add: fenced_no_match)
qed

lemma finditer_skip:
  "fence_free pre \<Longrightarrow>
   finditer_from rx_fenced (pre @ fence @ rest) p
     = finditer_from rx_fenced (fence @ rest) (p + length pre)"
proof (induction pre arbitrary: p)
  case Nil
  show ?case by simp
next
  case (Cons c pre)
  have n: "\<not> prefix fence (c # pre @ fence @ rest)"
    using Cons.prems by (rule fence_free_no_prefix)
  have f: "fence_free pre" using Cons.prems by (rule fence_free_Cons)
  show ?case
    using Cons.IH [OF f, of "Suc p"]
    by (subst finditer_from.simps) (simp add: fenced_no_match [OF n])
qed

lemma finditer_block:
  assumes "fence_free pre" and "tag = [] \<or> tag = ''python''" and "fence_free inner"
  shows "finditer_from rx_fenced (pre @ fence @ tag @ nl @ inner @ fence @ rest) p
     = (p + length pre, p + length pre + 3 + length tag + 1 + length inner + 3,
        [(1, p + length pre + 3 + length tag + 1,
          p + length pre + 3 + length tag + 1 + length inner)])
       # finditer_from rx_fenced rest (p + length pre + 3 + length tag + 1 + length inner + 3)"
proof -
  let ?s = "fence @ tag @ nl @ inner @ fence @ rest"
  have "length rest < length ?s" by (simp add: length_fence)
  then have "finditer_from rx_fenced ?s (p + length pre)
      = (p + length pre, p + length pre + 3 + length tag + 1 + length inner + 3,
         [(1, p + length pre + 3 + length tag + 1,
           p + length pre + 3 + length tag + 1 + length inner)])
        # finditer_from rx_fenced rest (p + length pre + 3 + length tag + 1 + length inner + 3)"
    by (subst finditer_from.simps)
       (simp only: fenced_match [OF assms(2,3)] option.case prod.case if_True)
  with finditer_skip [OF assms(1), of "tag @ nl @ inner @ fence @ rest" p] show ?thesis by simp
qed

lemma substr_middle: "substr (a @ b @ c) (length a) (length a + length b) = b"
  by (simp add: substr_def)

text \<open>
  Claim C8, as the code has it.  For a text with one fenced block, whose markers are the
  only fence markers of the text, \<^verbatim>\<open>extract_code_blocks\<close> without cleaning returns the inner
  content of the block as it is: all that stands between the newline that ends the opening
  line and the closing marker.
\<close>

theorem single_fenced_block:
  assumes "tag = [] \<or> tag = ''python''"
    and "fence_free pre" and "fence_free inner" and "\<not> contains post fence"
  shows "extract_code_blocks (pre @ fence @ tag @ nl @ inner @ fence @ post) False = Inr inner"
proof -
  let ?text = "pre @ fence @ tag @ nl @ inner @ fence @ post"
  have l: "length fence = 3" "length nl = 1" by (simp_all add: fence_def nl_def)
  have "finditer rx_fenced ?text
      = [(length pre, length pre + 3 + length tag + 1 + length inner + 3,
          [(1, length pre + 3 + length tag + 1, length pre + 3 + length tag + 1 + length inner)])]"
    using finditer_block [OF assms(2,1,3), of post 0] finditer_no_fence [OF assms(4)]
    by (simp add: finditer_def)
  moreover have "substr ?text (length pre + 3 + length tag + 1)
      (length pre + 3 + length tag + 1 + length inner) = inner"
  proof -
    have e: "length pre + 3 + length tag + 1 = length (pre @ fence @ tag @ nl)"
      by (simp add: l)
    show ?thesis
      unfolding e using substr_middle [of "pre @ fence @ tag @ nl" inner "fence @ post"]
      by simp
  qed
  ultimately have "findall1 rx_fenced ?text = [inner]"
    by (simp add: findall1_def group_def)
  then show ?thesis by (simp add: extract_code_blocks_def)
qed

theorem single_fenced_block_witness:
  "extract_code_blocks (''Here is the code:'' @ nl @ fence @ ''python'' @ nl
      @ (''x = 1'' @ nl) @ fence @ (nl @ ''Done.'')) False = Inr (''x = 1'' @ nl)"
proof -
  have "fence_free (''Here is the code:'' @ nl)" and "fence_free (''x = 1'' @ nl)"
    and "\<not> contains (nl @ ''Done.'') fence"
    by code_simp+
  from single_fenced_block [OF _ this, of "''python''"] show ?thesis by simp
qed

text \<open>
  The content is not trimmed: the newline before the closing marker is part of what is
  returned.
\<close>

theorem single_fenced_block_not_trimmed_counterexample:
  "extract_code_blocks (fence @ ''python'' @ nl @ ''x = 1'' @ nl @ fence) False
     = Inr (''x = 1'' @ nl)
   \<and> strip (''x = 1'' @ nl) = ''x = 1''
   \<and> ''x = 1'' @ nl \<noteq> ''x = 1''"
  by code_simp

text \<open>
  Claim C9, as the code has it.  For a text with two fenced blocks, whose markers are the
  only fence markers of the text, \<^verbatim>\<open>extract_code_blocks\<close> without cleaning returns the two
  inner contents as they are, in the order of the text, with two newline characters
  between them.
\<close>

theorem two_fenced_blocks:
  assumes "tag1 = [] \<or> tag1 = ''python''" and "tag2 = [] \<or> tag2 = ''python''"
    and "fence_free pre" and "fence_free inner1" and "fence_free mid"
    and "fence_free inner2" and "\<not> contains post fence"
  shows "extract_code_blocks
           (pre @ fence @ tag1 @ nl @ inner1 @ fence @ mid @ fence @ tag2 @ nl @ inner2 @ fence @ post)
           False
         = Inr (inner1 @ nl @ nl @ inner2)"
proof -
  let ?rest = "mid @ fence @ tag2 @ nl @ inner2 @ fence @ post"
  let ?text = "pre @ fence @ tag1 @ nl @ inner1 @ fence @ ?rest"
  let ?a = "length pre + 3 + length tag1 + 1"
  let ?e = "?a + length inner1 + 3"
  let ?b = "?e + length mid + 3 + length tag2 + 1"
  have l: "length fence = 3" "length nl = 1" by (simp_all add: fence_def nl_def)
  have "finditer rx_fenced ?text
      = [(length pre, ?e, [(1, ?a, ?a + length inner1)]),
         (?e + length mid, ?b + length inner2 + 3, [(1, ?b, ?b + length inner2)])]"
    using finditer_block [OF assms(3,1,4), of ?rest 0]
      finditer_block [OF assms(5,2,6), of post ?e] finditer_no_fence [OF assms(7)]
    by (simp add: finditer_def)
  moreover have "substr ?text ?a (?a + length inner1) = inner1"
  proof -
    have e: "?a = length (pre @ fence @ tag1 @ nl)" by (simp add: l)
    show ?thesis
      unfolding e using substr_middle [of "pre @ fence @ tag1 @ nl" inner1 "fence @ ?rest"]
      by simp
  qed
  moreover have "substr ?text ?b (?b + length inner2) = inner2"
  proof -
    have e: "?b = length (pre @ fence @ tag1 @ nl @ inner1 @ fence @ mid @ fence @ tag2 @ nl)"
      by (simp add: l)
    show ?thesis
      unfolding e
      using substr_middle [of "pre @ fence @ tag1 @ nl @ inner1 @ fence @ mid @ fence @ tag2 @ nl"
          inner2 "fence @ post"]
      by simp
  qed
  ultimately have "findall1 rx_fenced ?text = [inner1, inner2]"
    by (simp add: findall1_def group_def)
  then show ?thesis by (simp add: extract_code_blocks_def)
qed

definition two_fences_example :: string where
  "two_fences_example = join nl
     [''First:'', fence @ ''python'', ''x = 1'', fence, ''then:'', fence, ''y = 2'', fence]"

theorem two_fenced_blocks_witness:
  "extract_code_blocks
     ((''First:'' @ nl) @ fence @ ''python'' @ nl @ (''x = 1'' @ nl) @ fence @ (nl @ ''then:'' @ nl)
      @ fence @ [] @ nl @ (''y = 2'' @ nl) @ fence @ []) False
   = Inr ((''x = 1'' @ nl) @ nl @ nl @ (''y = 2'' @ nl))"
proof -
  have "fence_free (''First:'' @ nl)" and "fence_free (''x = 1'' @ nl)"
    and "fence_free (nl @ ''then:'' @ nl)" and "fence_free (''y = 2'' @ nl)"
    and "\<not> contains [] fence"
    by code_simp+
  from two_fenced_blocks [OF _ _ this, of "''python''" "[]"] show ?thesis by simp
qed

text \<open>
  Two blocks that each end with a newline come out with two blank lines between them.
\<close>

theorem two_fenced_blocks_two_blank_lines_counterexample:
  "extract_code_blocks two_fences_example False
     = Inr (join nl [''x = 1'', [], [], ''y = 2'', []])
   \<and> join nl [''x = 1'', [], [], ''y = 2'', []] \<noteq> join nl [''x = 1'', [], ''y = 2'', []]
   \<and> join nl [''x = 1'', [], [], ''y = 2'', []] \<noteq> join nl [''x = 1'', [], ''y = 2'']"
  by code_simp

section \<open>The duplicate-constructor collapse: \<^verbatim>\<open>fix_duplicate_init_methods\<close>\<close>

text \<open>
  \<^verbatim>\<open>init_methods\<close> is a list of pairs in the order of insertion, a span is the triple of
  its first line, the line after its last and its text.  The spans of a class have
  different first lines, so that sorting them in reverse is sorting them and reversing.
\<close>

definition rx_init_header :: rx where
  \<comment> \<open>\<^verbatim>\<open>^\s*def\s+__init__\s*\(\<close>\<close>
  "rx_init_header =
     seqs [Bos, Star (Sym isspace), lit ''def'', plus (Sym isspace), lit ''__init__'',
           Star (Sym isspace), lit ''('']"

type_synonym init_span = "nat \<times> nat \<times> string"

fun add_init :: "string \<Rightarrow> init_span \<Rightarrow> (string \<times> init_span list) list
                 \<Rightarrow> (string \<times> init_span list) list" where
  \<comment> \<open>\<^verbatim>\<open>init_methods[class_name].append(...)\<close>, a new key going to the end\<close>
  "add_init c x [] = [(c, [x])]"
| "add_init c x ((d, xs) # rest) =
     (if d = c then (d, xs @ [x]) # rest else (d, xs) # add_init c x rest)"

definition slice :: "'a list \<Rightarrow> nat \<Rightarrow> nat \<Rightarrow> 'a list" where
  \<comment> \<open>\<^verbatim>\<open>xs[a:b]\<close>\<close>
  "slice xs a b = take (b - a) (drop a xs)"

definition init_step ::
  "string list \<Rightarrow> nat \<Rightarrow> string option \<times> (string \<times> init_span list) list
   \<Rightarrow> nat \<times> string option \<times> (string \<times> init_span list) list" where
  \<comment> \<open>one round of the first loop at line \<open>i\<close>: the next \<open>i\<close>, \<^verbatim>\<open>class_name\<close> and
      \<^verbatim>\<open>init_methods\<close>\<close>
  "init_step lines i st =
     (case st of (class_name, init_methods) \<Rightarrow>
        (let line = strip (lines ! i);
             class_name = (case match_group1 rx_class_header line of
                             Some c \<Rightarrow> Some c | None \<Rightarrow> class_name)
         in case class_name of
              Some c \<Rightarrow>
                if matches rx_init_header line \<and> c \<noteq> [] then
                  (let start_line = i;
                       init_indent = indent_of (lines ! i);
                       j = span_end lines init_indent (Suc i)
                   in (j, class_name,
                       add_init c (start_line, j, join nl (slice lines start_line j)) init_methods))
                else (Suc i, class_name, init_methods)
            | None \<Rightarrow> (Suc i, class_name, init_methods)))"

lemma init_step_next: "init_step lines i st = (i', st') \<Longrightarrow> i < i'"
  using span_end_ge [of "Suc i" lines "indent_of (lines ! i)"]
  by (auto simp: init_step_def Let_def split: prod.splits option.splits if_splits)

function find_inits ::
  "string list \<Rightarrow> nat \<Rightarrow> string option \<times> (string \<times> init_span list) list
   \<Rightarrow> (string \<times> init_span list) list" where
  "find_inits lines i st =
     (if i < length lines then
        (case init_step lines i st of (i', st') \<Rightarrow> find_inits lines i' st')
      else snd st)"
  by pat_completeness auto
termination
proof (relation "measure (\<lambda>(lines, i, st). length lines - i)", goal_cases)
  case 1
  show ?case by simp
next
  case (2 lines i st i' st')
  from 2(2) have "init_step lines i st = (i', st')" by simp
  from init_step_next [OF this] 2(1) show ?case by simp
qed

declare find_inits.simps [simp del]

definition init_key :: "init_span \<Rightarrow> nat \<times> nat" where
  \<comment> \<open>\<^verbatim>\<open>(len(x[2].split(',')), len(x[2].split('\n')))\<close>\<close>
  "init_key x = (length (split (snd (snd x)) '',''), length (split (snd (snd x)) nl))"

fun max_by :: "('a \<Rightarrow> 'k::linorder) \<Rightarrow> 'a \<Rightarrow> 'a list \<Rightarrow> 'a" where
  \<comment> \<open>\<^verbatim>\<open>max(xs, key=f)\<close> of a non-empty list: the first of the greatest\<close>
  "max_by f best [] = best"
| "max_by f best (x # xs) = max_by f (if f best < f x then x else best) xs"

definition remove_inits :: "init_span list \<Rightarrow> string list \<Rightarrow> string list" where
  \<comment> \<open>the body of the second loop for one class\<close>
  "remove_inits inits lines =
     (case inits of
        [] \<Rightarrow> lines
      | first # others \<Rightarrow>
          if length inits > 1 then
            (let best_init = max_by init_key first others;
                 to_remove = filter (\<lambda>init. init \<noteq> best_init) inits;
                 to_remove = rev (sort_key fst to_remove)
             in fold (\<lambda>(start, end, _) lines. take start lines @ drop end lines) to_remove lines)
          else lines)"

definition fix_duplicate_init_methods :: "string \<Rightarrow> string" where
  "fix_duplicate_init_methods code =
     (let lines = split code nl;
          init_methods = find_inits lines 0 (None, []);
          lines = fold (\<lambda>(class_name, inits) lines. remove_inits inits lines) init_methods lines
      in join nl lines)"

definition two_classes_example :: string where
  "two_classes_example = join nl
     [''class A:'',
      ''    def __init__(self):'',
      ''        pass'',
      ''    def __init__(self, x):'',
      ''        self.x = x'',
      ''class B:'',
      ''    def __init__(self):'',
      ''        pass'',
      ''    def __init__(self, y):'',
      ''        self.y = y'']"

text \<open>
  Claim C6.  With two classes that each have two constructors, the spans of the second
  class are removed at the line numbers taken before the lines of the first class were
  removed: in class \<open>B\<close> the constructor with the greater parameter count is deleted and
  the other one is kept.
\<close>

theorem second_class_keeps_smaller_init:
  "find_inits (split two_classes_example nl) 0 (None, [])
     = [(''A'', [(1, 3, join nl [''    def __init__(self):'', ''        pass'']),
                (3, 5, join nl [''    def __init__(self, x):'', ''        self.x = x''])]),
        (''B'', [(6, 8, join nl [''    def __init__(self):'', ''        pass'']),
                (8, 10, join nl [''    def __init__(self, y):'', ''        self.y = y''])])]
   \<and> init_key (6, 8, join nl [''    def __init__(self):'', ''        pass'']) = (1, 2)
   \<and> init_key (8, 10, join nl [''    def __init__(self, y):'', ''        self.y = y'']) = (2, 2)
   \<and> split (fix_duplicate_init_methods two_classes_example) nl
     = [''class A:'', ''    def __init__(self, x):'', ''        self.x = x'',
        ''class B:'', ''    def __init__(self):'', ''        pass'']"
  by code_simp

section \<open>The node repair: \<^verbatim>\<open>fix_incomplete_node_class\<close>\<close>

function replace :: "string \<Rightarrow> string \<Rightarrow> string \<Rightarrow> string" where
  \<comment> \<open>\<^verbatim>\<open>s.replace(old, new)\<close>; the program only replaces a non-empty literal\<close>
  "replace s old new =
     (if old = [] then s
      else (case find_sub old s of None \<Rightarrow> s | Some (a, b) \<Rightarrow> a @ new @ replace b old new))"
  by pat_completeness auto
termination
  by (relation "measure (\<lambda>(s, old, new). length s)") (auto dest: find_sub_shorter)

declare replace.simps [simp del]

text \<open>
  A replacement text of \<^verbatim>\<open>re.sub\<close> that contains a backslash is a template.  It is parsed
  before the search starts, and an escape that is not known makes \<^verbatim>\<open>re.sub\<close> raise
  (\<^verbatim>\<open>re.error\<close>, or \<^verbatim>\<open>IndexError\<close> for an unknown group name).  The parser below is that of
  CPython 3.12 for a pattern without named groups; \<open>groups\<close> is the number of groups of the
  pattern.  A group name that is not a number raises \<^verbatim>\<open>IndexError\<close> when it is an identifier
  and \<^verbatim>\<open>re.error\<close> otherwise; the model gives \<open>IndexError\<close> for both.
\<close>

datatype titem = TLit string | TGroup nat

definition isoctdigit :: "char \<Rightarrow> bool" where
  "isoctdigit c = (let n = (of_char c :: nat) in 48 \<le> n \<and> n \<le> 55)"

definition isasciidigit :: "char \<Rightarrow> bool" where
  "isasciidigit c = (let n = (of_char c :: nat) in 48 \<le> n \<and> n \<le> 57)"

definition isasciiletter :: "char \<Rightarrow> bool" where
  "isasciiletter c = (let n = (of_char c :: nat) in (65 \<le> n \<and> n \<le> 90) \<or> (97 \<le> n \<and> n \<le> 122))"

definition digit_val :: "char \<Rightarrow> nat" where
  "digit_val c = (of_char c :: nat) - 48"

definition digits_val :: "nat \<Rightarrow> string \<Rightarrow> nat" where
  \<comment> \<open>\<^verbatim>\<open>int(ds, base)\<close>\<close>
  "digits_val base ds = foldl (\<lambda>n c. n * base + digit_val c) 0 ds"

definition escape_char :: "char \<Rightarrow> char option" where
  \<comment> \<open>the table \<^verbatim>\<open>ESCAPES\<close>\<close>
  "escape_char c =
     (if c = CHR ''a'' then Some (CHR 0x07)
      else if c = CHR ''b'' then Some (CHR 0x08)
      else if c = CHR ''f'' then Some (CHR 0x0C)
      else if c = CHR ''n'' then Some (CHR 0x0A)
      else if c = CHR ''r'' then Some (CHR 0x0D)
      else if c = CHR ''t'' then Some (CHR 0x09)
      else if c = CHR ''v'' then Some (CHR 0x0B)
      else if c = CHR 0x5C then Some (CHR 0x5C)
      else None)"

definition group_ref :: "nat \<Rightarrow> nat \<Rightarrow> exn + titem" where
  \<comment> \<open>\<^verbatim>\<open>addgroup\<close>\<close>
  "group_ref groups index = (if index > groups then Inl ReError else Inr (TGroup index))"

definition escaped_item :: "nat \<Rightarrow> char \<Rightarrow> string \<Rightarrow> exn + (titem \<times> string)" where
  \<comment> \<open>the item for a backslash followed by \<open>d\<close>, and what is left of \<open>rest\<close>\<close>
  "escaped_item groups d rest =
     (if d = CHR ''g'' then
        (case rest of
           [] \<Rightarrow> Inl ReError
         | lt # rest' \<Rightarrow>
             if lt \<noteq> CHR ''<'' then Inl ReError
             else (case find_sub ''>'' rest' of
                     None \<Rightarrow> Inl ReError
                   | Some (name, after) \<Rightarrow>
                       if name = [] then Inl ReError
                       else if list_all isasciidigit name then
                         (case group_ref groups (digits_val 10 name) of
                            Inl e \<Rightarrow> Inl e
                          | Inr t \<Rightarrow> Inr (t, after))
                       else Inl IndexError))
      else if d = CHR ''0'' then
        (let ds = takeWhile isoctdigit (take 2 rest)
         in Inr (TLit [char_of (digits_val 8 ds mod 256)], drop (length ds) rest))
      else if isasciidigit d then
        (case rest of
           [] \<Rightarrow> (case group_ref groups (digit_val d) of Inl e \<Rightarrow> Inl e | Inr t \<Rightarrow> Inr (t, []))
         | d2 # rest2 \<Rightarrow>
             if isasciidigit d2 then
               (case rest2 of
                  [] \<Rightarrow> (case group_ref groups (digits_val 10 [d, d2]) of
                           Inl e \<Rightarrow> Inl e | Inr t \<Rightarrow> Inr (t, rest2))
                | d3 # rest3 \<Rightarrow>
                    if isoctdigit d \<and> isoctdigit d2 \<and> isoctdigit d3 then
                      (if digits_val 8 [d, d2, d3] > 255 then Inl ReError
                       else Inr (TLit [char_of (digits_val 8 [d, d2, d3])], rest3))
                    else (case group_ref groups (digits_val 10 [d, d2]) of
                            Inl e \<Rightarrow> Inl e | Inr t \<Rightarrow> Inr (t, rest2)))
             else (case group_ref groups (digit_val d) of
                     Inl e \<Rightarrow> Inl e | Inr t \<Rightarrow> Inr (t, rest)))
      else
        (case escape_char d of
           Some x \<Rightarrow> Inr (TLit [x], rest)
         | None \<Rightarrow> if isasciiletter d then Inl ReError else Inr (TLit [CHR 0x5C, d], rest)))"

definition template_item :: "nat \<Rightarrow> char \<Rightarrow> string \<Rightarrow> exn + (titem \<times> string)" where
  \<comment> \<open>the first item of the template \<open>c # rest\<close>, and what is left of it\<close>
  "template_item groups c rest =
     (if c \<noteq> CHR 0x5C then Inr (TLit [c], rest)
      else (case rest of [] \<Rightarrow> Inl ReError | d # rest' \<Rightarrow> escaped_item groups d rest'))"

lemma escaped_item_shorter: "escaped_item groups d rest = Inr (t, r) \<Longrightarrow> length r \<le> length rest"
  by (auto simp: escaped_item_def Let_def
           split: list.splits if_splits option.splits sum.splits prod.splits
           dest!: find_sub_shorter)

lemma template_item_shorter: "template_item groups c rest = Inr (t, r) \<Longrightarrow> length r \<le> length rest"
  by (auto simp: template_item_def split: if_splits list.splits dest!: escaped_item_shorter)

function parse_template :: "nat \<Rightarrow> string \<Rightarrow> exn + titem list" where
  "parse_template groups [] = Inr []"
| "parse_template groups (c # rest) =
     (case template_item groups c rest of
        Inl e \<Rightarrow> Inl e
      | Inr (t, r) \<Rightarrow>
          (case parse_template groups r of Inl e \<Rightarrow> Inl e | Inr ts \<Rightarrow> Inr (t # ts)))"
  by pat_completeness auto
termination
  by (relation "measure (\<lambda>(groups, s). length s)")
     (auto dest!: template_item_shorter)

definition expand :: "string \<Rightarrow> rmatch \<Rightarrow> titem list \<Rightarrow> string" where
  \<comment> \<open>the replacement for one match\<close>
  "expand s m ts = concat (map (\<lambda>t. case t of TLit l \<Rightarrow> l | TGroup i \<Rightarrow> group s m i) ts)"

fun sub_build :: "string \<Rightarrow> nat \<Rightarrow> rmatch list \<Rightarrow> (rmatch \<Rightarrow> string) \<Rightarrow> string" where
  \<comment> \<open>the text from position \<open>pos\<close> on, with each match replaced\<close>
  "sub_build s pos [] f = drop pos s"
| "sub_build s pos (m # ms) f = substr s pos (fst m) @ f m @ sub_build s (fst (snd m)) ms f"

definition re_sub :: "nat \<Rightarrow> rx \<Rightarrow> string \<Rightarrow> string \<Rightarrow> exn + string" where
  \<comment> \<open>\<^verbatim>\<open>re.sub(pattern, repl, s)\<close> for a pattern with \<open>groups\<close> groups\<close>
  "re_sub groups r repl s =
     (if CHR 0x5C \<notin> set repl then Inr (sub_build s 0 (finditer r s) (\<lambda>m. repl))
      else (case parse_template groups repl of
              Inl e \<Rightarrow> Inl e
            | Inr ts \<Rightarrow> Inr (sub_build s 0 (finditer r s) (\<lambda>m. expand s m ts))))"

definition bs :: string where
  \<comment> \<open>the backslash\<close>
  "bs = [CHR 0x5C]"

definition ws :: rx where
  \<comment> \<open>\<^verbatim>\<open>\s\<close>\<close>
  "ws = Sym isspace"

definition dotall :: rx where
  \<comment> \<open>\<^verbatim>\<open>.*?\<close> under \<^verbatim>\<open>DOTALL\<close>\<close>
  "dotall = Lazy (Sym anychar)"

definition key_word :: rx where
  \<comment> \<open>\<^verbatim>\<open>(?:key|val|value)\<close>\<close>
  "key_word = Alt (lit ''key'') (Alt (lit ''val'') (lit ''value''))"

definition rx_tree_node_class :: rx where
  \<comment> \<open>\<^verbatim>\<open>class\s+(TreeNode|Node)\s*:\<close>\<close>
  "rx_tree_node_class =
     seqs [lit ''class'', plus ws, Grp 1 (Alt (lit ''TreeNode'') (lit ''Node'')), Star ws, lit '':'']"

definition rx_bst_class :: rx where
  \<comment> \<open>\<^verbatim>\<open>class\s+(BinarySearchTree|BST)\s*:\<close>\<close>
  "rx_bst_class =
     seqs [lit ''class'', plus ws, Grp 1 (Alt (lit ''BinarySearchTree'') (lit ''BST'')), Star ws,
           lit '':'']"

definition rx_init_with_key :: rx where
  \<comment> \<open>\<^verbatim>\<open>def\s+__init__\s*\(\s*self\s*,\s*(?:key|val|value).*?\)\<close>\<close>
  "rx_init_with_key =
     seqs [lit ''def'', plus ws, lit ''__init__'', Star ws, lit ''('', Star ws, lit ''self'', Star ws,
           lit '','', Star ws, key_word, dotall, lit '')'']"

definition rx_bst_init_with_key :: "string \<Rightarrow> rx" where
  \<comment> \<open>\<^verbatim>\<open>class\s+{bst_class}\s*:.*?\<close> followed by \<open>rx_init_with_key\<close>\<close>
  "rx_bst_init_with_key bst_class =
     seqs [lit ''class'', plus ws, lit bst_class, Star ws, lit '':'', dotall, rx_init_with_key]"

definition rx_empty_treenode :: "string \<Rightarrow> rx" where
  \<comment> \<open>\<^verbatim>\<open>class\s+{tree_node_class}\s*:(?:\s*\n\s*|$)\<close>\<close>
  "rx_empty_treenode tree_node_class =
     seqs [lit ''class'', plus ws, lit tree_node_class, Star ws, lit '':'',
           Alt (seqs [Star ws, lit nl, Star ws]) Eos]"

definition rx_proper_node_init :: rx where
  \<comment> \<open>\<open>rx_init_with_key\<close> followed by \<^verbatim>\<open>.*?self\.(?:key|val|value)\s*=\s*(?:key|val|value)\<close>\<close>
  "rx_proper_node_init =
     seqs [rx_init_with_key, dotall, lit ''self.'', key_word, Star ws, lit ''='', Star ws, key_word]"

definition rx_bst_pattern :: "string \<Rightarrow> rx" where
  \<comment> \<open>\<open>rx_bst_init_with_key\<close> followed by \<^verbatim>\<open>(.*?)(?:\n\s*def|\n\s*$)\<close>\<close>
  "rx_bst_pattern bst_class =
     seqs [rx_bst_init_with_key bst_class, Grp 1 dotall,
           Alt (seqs [lit nl, Star ws, lit ''def'']) (seqs [lit nl, Star ws, Eos])]"

definition rx_key_param :: rx where
  \<comment> \<open>\<^verbatim>\<open>def\s+__init__\s*\(\s*self\s*,\s*(\w+)\<close>\<close>
  "rx_key_param =
     seqs [lit ''def'', plus ws, lit ''__init__'', Star ws, lit ''('', Star ws, lit ''self'', Star ws,
           lit '','', Star ws, Grp 1 (plus (Sym isword))]"

definition rx_self_attr :: "string \<Rightarrow> rx" where
  \<comment> \<open>\<^verbatim>\<open>self\.{attr}\s*=\<close>\<close>
  "rx_self_attr attr = seqs [lit ''self.'', lit attr, Star ws, lit ''='']"

fun line_of_offset :: "string list \<Rightarrow> nat \<Rightarrow> nat \<Rightarrow> nat \<Rightarrow> nat" where
  \<comment> \<open>the loop that finds the line of a text offset; 0 when the loop ends without a
      \<^verbatim>\<open>break\<close>\<close>
  "line_of_offset [] i line_count start = 0"
| "line_of_offset (line # rest) i line_count start =
     (if line_count + length line + 1 > start then i
      else line_of_offset rest (Suc i) (line_count + length line + 1) start)"

definition method_at :: "string list \<Rightarrow> nat \<Rightarrow> string" where
  \<comment> \<open>the lines of the span that starts at line \<open>n\<close>, joined\<close>
  "method_at lines n =
     join nl (slice lines n (span_end lines (indent_of (lines ! n)) (Suc n)))"

definition bst_replacement :: "string \<Rightarrow> string" where
  "bst_replacement bst_class =
     ''class '' @ bst_class @ '':'' @ nl @ ''    def __init__(self):'' @ nl
     @ ''        self.root = None'' @ nl"

definition node_attributes :: "string \<Rightarrow> string \<Rightarrow> string list" where
  "node_attributes bst_init_method key_param =
     (let attributes =
        concat (map (\<lambda>attr.
           if re_search (rx_self_attr attr) bst_init_method \<noteq> None then
             (if attr \<in> set [''key'', ''val'', ''value'']
              then [''self.'' @ attr @ '' = '' @ key_param]
              else [''self.'' @ attr @ '' = None''])
           else []) [''key'', ''val'', ''value'', ''left'', ''right''])
      in if attributes = []
         then [''self.key = '' @ key_param, ''self.left = None'', ''self.right = None'']
         else attributes)"

definition fix_incomplete_node_class :: "string \<Rightarrow> exn + string" where
  "fix_incomplete_node_class code =
     (let lines = split code nl
      in case (re_search rx_tree_node_class code, re_search rx_bst_class code) of
           (Some tree_node_match, Some bst_match) \<Rightarrow>
             (let tree_node_class = group code tree_node_match 1;
                  bst_class = group code bst_match 1
              in case (re_search (rx_bst_init_with_key bst_class) code,
                       re_search (rx_empty_treenode tree_node_class) code) of
                   (Some bst_init_with_key, Some empty_treenode) \<Rightarrow>
                     (let bst_init_start = fst bst_init_with_key;
                          bst_init_line = line_of_offset lines 0 0 bst_init_start;
                          bst_init_method = method_at lines bst_init_line
                      in case re_search rx_proper_node_init code of
                           Some proper_node_init \<Rightarrow>
                             (let node_init_start = fst proper_node_init;
                                  node_init_line = line_of_offset lines 0 0 node_init_start;
                                  proper_node_init_method = method_at lines node_init_line;
                                  indented_init = replace proper_node_init_method ''def '' ''    def '';
                                  replacement = ''class '' @ tree_node_class @ '':'' @ nl
                                                @ indented_init @ nl
                              in case re_sub 0 (rx_empty_treenode tree_node_class) replacement code of
                                   Inl e \<Rightarrow> Inl e
                                 | Inr code \<Rightarrow>
                                     re_sub 1 (rx_bst_pattern bst_class) (bst_replacement bst_class) code)
                         | None \<Rightarrow>
                             (case re_sub 1 (rx_bst_pattern bst_class) (bst_replacement bst_class) code of
                                Inl e \<Rightarrow> Inl e
                              | Inr code \<Rightarrow>
                                  (let key_param =
                                         (case re_search rx_key_param bst_init_method of
                                            Some m \<Rightarrow> group bst_init_method m 1
                                          | None \<Rightarrow> ''key'');
                                       attributes = node_attributes bst_init_method key_param;
                                       indented_attributes = join (nl @ ''        '') attributes;
                                       replacement = ''class '' @ tree_node_class @ '':'' @ nl
                                                     @ ''    def __init__(self, '' @ key_param @ ''):''
                                                     @ nl @ ''        '' @ indented_attributes @ nl
                                   in re_sub 0 (rx_empty_treenode tree_node_class) replacement code)))
                 | _ \<Rightarrow> Inr code)
         | _ \<Rightarrow> Inr code)"

definition fix_common_code_issues :: "string \<Rightarrow> exn + string" where
  "fix_common_code_issues code =
     (let code = join nl (fixed_lines code)
      in case fix_incomplete_node_class code of
           Inl e \<Rightarrow> Inl e
         | Inr code \<Rightarrow> Inr (fix_duplicate_init_methods code))"

definition escape_example :: string where
  "escape_example = join nl
     [''class Node:'',
      ''    pass'',
      ''class BST:'',
      ''    def __init__(self, key):'',
      ''        self.key = key'',
      ''        self.pair = re.compile(r'' @ dq @ ''('' @ bs @ ''d)'' @ bs @ ''1'' @ dq @ '')'']"

definition plain_example :: string where
  "plain_example = join nl
     [''class Node:'',
      ''    pass'',
      ''class BST:'',
      ''    def __init__(self, key):'',
      ''        self.key = key'',
      ''        self.left = None'']"

definition foo_example :: string where
  "foo_example = join nl
     [''Here is the class:'',
      fence @ ''python'',
      ''import os'',
      ''class Foo:'',
      ''    def bar(self):'',
      ''        return 1'',
      ''class Foo:'',
      ''    def bar(self):'',
      ''        return 2'',
      fence]"

















definition foo_cleaned :: string where
  "foo_cleaned = join nl
     [''import os'', [], ''class Foo:'', [], ''class Foo:'', [],
      ''    def bar(self):'', ''        return 1'', [],
      ''    def bar(self):'', ''        return 2'', []]"

text \<open>
  With cleaning enabled the same block reaches the repair in another shape.  The first
  loop of \<^verbatim>\<open>reorder_code\<close> tests the stripped line for a function header, so each method
  starts a block of its own although \<^verbatim>\<open>in_class_def\<close> is set, and the two class headers
  are put before the two methods.  The first pass then deletes the second header together
  with both methods: the header of the first definition is left without its method.
\<close>

lemma cleaned_example_loses_method:
  "extract_code_blocks foo_example True = Inr foo_cleaned
   \<and> fix_common_code_issues foo_cleaned = Inr (join nl [''import os'', [], ''class Foo:'', []])"
  by code_simp


text \<open>
  Claim C1.  The constructor that is moved into the node class becomes the replacement
  text of \<^verbatim>\<open>re.sub\<close>, which reads it as a template: a backslash followed by a letter that is
  no escape, or by the number of a group that the pattern does not have, makes \<^verbatim>\<open>re.sub\<close>
  raise.  Here the constructor compiles a regular expression with both.
\<close>

theorem node_repair_raises:
  "fix_incomplete_node_class escape_example = Inl ReError
   \<and> fix_common_code_issues escape_example = Inl ReError"
  by code_simp

section \<open>Applying the Declaration Reorderer and the Import Consolidator twice\<close>

subsection \<open>A text that is one block and has no import line\<close>








lemma rstrip_nonblank: "strip l \<noteq> [] \<Longrightarrow> rstrip l \<noteq> []"
  by (auto simp: strip_def lstrip_def)

lemma rstrip_last: "rstrip l \<noteq> [] \<Longrightarrow> \<not> isspace (last (rstrip l))"
proof -
  assume n: "rstrip l \<noteq> []"
  then have d: "dropWhile isspace (rev l) \<noteq> []" by (simp add: rstrip_def)
  then have "\<not> isspace (hd (dropWhile isspace (rev l)))" by (rule hd_dropWhile)
  with d show ?thesis by (simp add: rstrip_def last_rev)
qed





















lemma join_last:
  "xs \<noteq> [] \<Longrightarrow> last xs \<noteq> [] \<Longrightarrow> join sep xs \<noteq> [] \<and> last (join sep xs) = last (last xs)"
proof (induction xs)
  case Nil
  then show ?case by simp
next
  case (Cons x xs)
  then show ?case by (cases xs) auto
qed










end
